theory Spec2Isabelle
  imports Main "HOL-Library.AList"
begin

section \<open>Values, errors and Python's string primitives\<close>

text \<open>
  The clipboard, the result store and the renderer of \<^verbatim>\<open>clipboard.py\<close> and
  \<^verbatim>\<open>template.py\<close> work on JSON-like Python values. A value is one of
  \<^verbatim>\<open>None\<close>, a bool, an int, a str, a list or a dict with str keys. A dict is an
  association list in insertion order (its keys are distinct in every dict Python builds).
  Floats are left out. A \<open>string\<close> is a list of code points below 256.
\<close>

datatype pyval =
    VNone
  | VBool bool
  | VInt int
  | VStr string
  | VList "pyval list"
  | VDict "(string \<times> pyval) list"

text \<open>Every \<^verbatim>\<open>raise\<close> of the source is a value; the argument is the message.\<close>

datatype error =
    KeyError string
  | ValueError string
  | IndexError string
  | TypeError string

subsection \<open>Character classes\<close>

text \<open>
  \<^verbatim>\<open>\w\<close> of a str pattern is \<^verbatim>\<open>isalnum() or '_'\<close>; below 256 these are the ASCII
  letters and digits, the underscore, and the Latin-1 letters, superscript digits and
  vulgar fractions.
\<close>

definition is_word :: "char \<Rightarrow> bool" where
  "is_word c =
     (let n = (of_char c :: nat)
      in (48 \<le> n \<and> n \<le> 57) \<or> (65 \<le> n \<and> n \<le> 90) \<or> (97 \<le> n \<and> n \<le> 122) \<or> n = 95
         \<or> n = 170 \<or> n = 178 \<or> n = 179 \<or> n = 181 \<or> n = 185 \<or> n = 186
         \<or> n = 188 \<or> n = 189 \<or> n = 190
         \<or> (192 \<le> n \<and> n \<le> 214) \<or> (216 \<le> n \<and> n \<le> 246) \<or> 248 \<le> n)"

text \<open>\<^verbatim>\<open>str.strip()\<close> removes the characters for which \<^verbatim>\<open>isspace()\<close> holds.\<close>

definition is_space :: "char \<Rightarrow> bool" where
  "is_space c =
     (let n = (of_char c :: nat)
      in (9 \<le> n \<and> n \<le> 13) \<or> (28 \<le> n \<and> n \<le> 32) \<or> n = 133 \<or> n = 160)"

text \<open>\<^verbatim>\<open>str.isdigit()\<close>: the decimal digits and the superscripts one, two and three.\<close>

definition is_decimal :: "char \<Rightarrow> bool" where
  "is_decimal c = (let n = (of_char c :: nat) in 48 \<le> n \<and> n \<le> 57)"

definition is_digit_char :: "char \<Rightarrow> bool" where
  "is_digit_char c = (let n = (of_char c :: nat) in is_decimal c \<or> n = 178 \<or> n = 179 \<or> n = 185)"

definition isdigit :: "string \<Rightarrow> bool" where
  "isdigit s = (s \<noteq> [] \<and> list_all is_digit_char s)"

definition strip :: "string \<Rightarrow> string" where
  "strip s = rev (dropWhile is_space (rev (dropWhile is_space s)))"

subsection \<open>Integers and text\<close>

definition digit_char :: "nat \<Rightarrow> char" where
  "digit_char d = char_of (48 + d)"

fun str_nat :: "nat \<Rightarrow> string" where
  "str_nat n = (if n < 10 then [digit_char n] else str_nat (n div 10) @ [digit_char (n mod 10)])"

declare str_nat.simps [simp del]

definition str_int :: "int \<Rightarrow> string" where
  "str_int i = (if i < 0 then CHR ''-'' # str_nat (nat (- i)) else str_nat (nat i))"

definition digit_val :: "char \<Rightarrow> nat" where
  "digit_val c = of_char c - 48"

fun join :: "string \<Rightarrow> string list \<Rightarrow> string" where
  "join sep [] = []"
| "join sep [x] = x"
| "join sep (x # y # ys) = x @ sep @ join sep (y # ys)"

subsection \<open>\<^verbatim>\<open>repr\<close> and \<^verbatim>\<open>str\<close>\<close>

definition hex_char :: "nat \<Rightarrow> char" where
  "hex_char d = (if d < 10 then char_of (48 + d) else char_of (87 + d))"

definition printable :: "char \<Rightarrow> bool" where
  "printable c =
     (let n = (of_char c :: nat)
      in 32 \<le> n \<and> n \<noteq> 127 \<and> \<not> (128 \<le> n \<and> n \<le> 160) \<and> n \<noteq> 173)"

definition repr_char :: "char \<Rightarrow> char \<Rightarrow> string" where
  "repr_char q c =
     (if c = q \<or> c = CHR 0x5C then [CHR 0x5C, c]
      else if c = CHR 0x09 then [CHR 0x5C, CHR ''t'']
      else if c = CHR 0x0A then [CHR 0x5C, CHR ''n'']
      else if c = CHR 0x0D then [CHR 0x5C, CHR ''r'']
      else if \<not> printable c
        then [CHR 0x5C, CHR ''x'', hex_char (of_char c div 16), hex_char (of_char c mod 16)]
      else [c])"

definition repr_str :: "string \<Rightarrow> string" where
  "repr_str s =
     (let q = (if CHR 0x27 \<in> set s \<and> CHR 0x22 \<notin> set s then CHR 0x22 else CHR 0x27)
      in q # concat (map (repr_char q) s) @ [q])"

text \<open>
  \<^verbatim>\<open>int(s)\<close> on a string that passed \<^verbatim>\<open>isdigit()\<close>: the superscripts are digits
  but not decimal, and \<^verbatim>\<open>int\<close> raises ValueError on them, quoting the literal. The
  conversion is the unlimited one: the cap on the number of digits that
  \<^verbatim>\<open>sys.set_int_max_str_digits\<close> sets (4300 unless changed) is an interpreter setting
  and is not part of the model.
\<close>

definition py_int :: "string \<Rightarrow> error + nat" where
  "py_int s =
     (if s \<noteq> [] \<and> list_all is_decimal s
      then Inr (foldl (\<lambda>a c. 10 * a + digit_val c) 0 s)
      else Inl (ValueError (''invalid literal for int() with base 10: '' @ repr_str s)))"

fun py_repr :: "pyval \<Rightarrow> string"
  and repr_elems :: "pyval list \<Rightarrow> string list"
  and repr_items :: "(string \<times> pyval) list \<Rightarrow> string list"
where
  "py_repr VNone = ''None''"
| "py_repr (VBool b) = (if b then ''True'' else ''False'')"
| "py_repr (VInt i) = str_int i"
| "py_repr (VStr s) = repr_str s"
| "py_repr (VList xs) = ''['' @ join '', '' (repr_elems xs) @ '']''"
| "py_repr (VDict kvs) = ''{'' @ join '', '' (repr_items kvs) @ ''}''"
| "repr_elems [] = []"
| "repr_elems (x # xs) = py_repr x # repr_elems xs"
| "repr_items [] = []"
| "repr_items ((k, v) # kvs) = (repr_str k @ '': '' @ py_repr v) # repr_items kvs"

definition py_str :: "pyval \<Rightarrow> string" where
  "py_str v = (case v of VStr s \<Rightarrow> s | _ \<Rightarrow> py_repr v)"

section \<open>ClipboardState\<close>

text \<open>
  The three dicts of \<^verbatim>\<open>ClipboardState\<close>; \<^verbatim>\<open>AList.update\<close> is a dict assignment
  (replace in place, or append), \<^verbatim>\<open>AList.delete\<close> is \<^verbatim>\<open>pop(key, None)\<close>.
  Logging is left out.
\<close>

record clipboard =
  cb_slots :: "(string \<times> pyval) list"
  cb_bytes_stored :: "(string \<times> nat) list"
  cb_usage_count :: "(string \<times> nat) list"

definition init_clipboard :: clipboard where
  "init_clipboard = \<lparr>cb_slots = [], cb_bytes_stored = [], cb_usage_count = []\<rparr>"

definition set_slot :: "string \<Rightarrow> pyval \<Rightarrow> clipboard \<Rightarrow> clipboard" where
  "set_slot slot v cb =
     (let size = (case v of VStr s \<Rightarrow> length s | _ \<Rightarrow> length (py_str v))
      in \<lparr>cb_slots = AList.update slot v (cb_slots cb),
          cb_bytes_stored = AList.update slot size (cb_bytes_stored cb),
          cb_usage_count = AList.update slot 0 (cb_usage_count cb)\<rparr>)"

definition get_slot :: "string \<Rightarrow> clipboard \<Rightarrow> error + pyval" where
  "get_slot slot cb =
     (case map_of (cb_slots cb) slot of
        None \<Rightarrow> Inl (KeyError (''Clipboard slot '' @ [CHR 0x27] @ slot @ [CHR 0x27]
                   @ '' not found. Available: ''
                   @ py_repr (VList (map (VStr \<circ> fst) (cb_slots cb)))))
      | Some v \<Rightarrow> Inr v)"

definition has :: "string \<Rightarrow> clipboard \<Rightarrow> bool" where
  "has slot cb = (slot \<in> fst ` set (cb_slots cb))"

text \<open>
  \<^verbatim>\<open>clear(slot=None)\<close>: \<^verbatim>\<open>if slot:\<close> is false for \<^verbatim>\<open>None\<close> and for the empty
  string. Only \<^verbatim>\<open>_slots\<close> is touched.
\<close>

definition clear :: "string option \<Rightarrow> clipboard \<Rightarrow> clipboard" where
  "clear slot cb =
     (case slot of
        Some s \<Rightarrow> (if s \<noteq> [] then cb\<lparr>cb_slots := AList.delete s (cb_slots cb)\<rparr>
                   else cb\<lparr>cb_slots := []\<rparr>)
      | None \<Rightarrow> cb\<lparr>cb_slots := []\<rparr>)"

definition list_slots :: "clipboard \<Rightarrow> string list" where
  "list_slots cb = map fst (cb_slots cb)"

definition record_usage :: "string \<Rightarrow> clipboard \<Rightarrow> clipboard" where
  "record_usage slot cb =
     (case map_of (cb_usage_count cb) slot of
        Some c \<Rightarrow> cb\<lparr>cb_usage_count := AList.update slot (c + 1) (cb_usage_count cb)\<rparr>
      | None \<Rightarrow> cb)"

record savings =
  bytes_stored :: nat
  bytes_substituted :: nat
  estimated_tokens_saved :: nat
  reference_overhead_tokens :: nat
  net_tokens_saved :: int
  slots_usage :: "(string \<times> nat) list"
  slots_bytes :: "(string \<times> nat) list"

definition get_default :: "('k \<times> 'v) list \<Rightarrow> 'k \<Rightarrow> 'v \<Rightarrow> 'v" where
  "get_default d k dflt = (case map_of d k of None \<Rightarrow> dflt | Some v \<Rightarrow> v)"

definition get_token_savings_estimate :: "clipboard \<Rightarrow> savings" where
  "get_token_savings_estimate cb =
     (let total_bytes_stored = sum_list (map snd (cb_bytes_stored cb));
          bytes_substituted =
            sum_list (map (\<lambda>(slot, count). get_default (cb_bytes_stored cb) slot 0 * count)
                          (cb_usage_count cb));
          chars_per_token = 4;
          estimated_tokens_saved = bytes_substituted div chars_per_token;
          reference_overhead =
            sum_list (map (\<lambda>(slot, count). (4 + length slot) * count) (cb_usage_count cb));
          reference_tokens = reference_overhead div chars_per_token
      in \<lparr>bytes_stored = total_bytes_stored,
          bytes_substituted = bytes_substituted,
          estimated_tokens_saved = estimated_tokens_saved,
          reference_overhead_tokens = reference_tokens,
          net_tokens_saved = int estimated_tokens_saved - int reference_tokens,
          slots_usage = cb_usage_count cb,
          slots_bytes = cb_bytes_stored cb\<rparr>)"

section \<open>ToolResultStore\<close>

record entry =
  tool :: string
  result :: pyval

record tool_result_store =
  st_by_tool :: "(string \<times> entry list) list"
  st_last :: "entry option"

definition init_store :: tool_result_store where
  "init_store = \<lparr>st_by_tool = [], st_last = None\<rparr>"

text \<open>
  \<^verbatim>\<open>store\<close> has no \<^verbatim>\<open>return\<close>: its value is \<^verbatim>\<open>None\<close>. The index it computes
  goes to the log only.
\<close>

definition store :: "string \<Rightarrow> pyval \<Rightarrow> tool_result_store \<Rightarrow> pyval \<times> tool_result_store" where
  "store tool_name res st =
     (let e = \<lparr>tool = tool_name, result = res\<rparr>;
          d = (if map_of (st_by_tool st) tool_name = None
               then AList.update tool_name [] (st_by_tool st) else st_by_tool st);
          d' = AList.map_entry tool_name (\<lambda>rs. rs @ [e]) d
      in (VNone, \<lparr>st_by_tool = d', st_last = Some e\<rparr>))"

text \<open>\<^verbatim>\<open>xs[i]\<close> with Python's negative indices; \<open>None\<close> is IndexError.\<close>

definition py_index :: "'a list \<Rightarrow> int \<Rightarrow> 'a option" where
  "py_index xs i =
     (let n = int (length xs); j = (if i < 0 then n + i else i)
      in if 0 \<le> j \<and> j < n then Some (xs ! nat j) else None)"

text \<open>\<^verbatim>\<open>s.rsplit(sep, 1)\<close> for a string that contains the separator.\<close>

definition rsplit1 :: "char \<Rightarrow> string \<Rightarrow> string \<times> string" where
  "rsplit1 sep s =
     (rev (drop 1 (dropWhile (\<lambda>c. c \<noteq> sep) (rev s))), rev (takeWhile (\<lambda>c. c \<noteq> sep) (rev s)))"

definition quoted :: "string \<Rightarrow> string" where
  "quoted s = [CHR 0x27] @ s @ [CHR 0x27]"

definition parse_source :: "string \<Rightarrow> error + string \<times> int" where
  "parse_source source =
     (if CHR '':'' \<in> set source then
        (case rsplit1 CHR '':'' source of
           (tool_name, idx_str) \<Rightarrow>
             if isdigit idx_str
             then (case py_int idx_str of Inl e \<Rightarrow> Inl e | Inr n \<Rightarrow> Inr (tool_name, int n))
             else Inl (KeyError (''Invalid index in source '' @ quoted source)))
      else Inr (source, - 1))"

definition get_result :: "string \<Rightarrow> tool_result_store \<Rightarrow> error + entry" where
  "get_result source st =
     (if source = ''last'' then
        (case st_last st of
           None \<Rightarrow> Inl (KeyError ''No tool results stored yet'')
         | Some e \<Rightarrow> Inr e)
      else
        (case parse_source source of
           Inl e \<Rightarrow> Inl e
         | Inr (tool_name, idx) \<Rightarrow>
             (case map_of (st_by_tool st) tool_name of
                None \<Rightarrow> Inl (KeyError (''No results for tool '' @ quoted tool_name
                           @ ''. Available: ''
                           @ py_repr (VList (map (VStr \<circ> fst) (st_by_tool st)))))
              | Some results \<Rightarrow>
                  (case py_index results idx of
                     Some e \<Rightarrow> Inr e
                   | None \<Rightarrow> Inl (KeyError (''Index '' @ str_int idx @ '' out of range for ''
                               @ quoted tool_name @ '' (has ''
                               @ str_nat (length results) @ '' results)''))))))"

section \<open>Extraction\<close>

definition truncate_value :: "pyval \<Rightarrow> nat \<Rightarrow> string" where
  "truncate_value v max_len =
     (let s = (case v of VStr t \<Rightarrow> t | _ \<Rightarrow> py_repr v)
      in if length s > max_len then take max_len s @ ''...'' else s)"

definition type_name :: "pyval \<Rightarrow> string" where
  "type_name v =
     (case v of VNone \<Rightarrow> ''NoneType'' | VBool _ \<Rightarrow> ''bool'' | VInt _ \<Rightarrow> ''int''
      | VStr _ \<Rightarrow> ''str'' | VList _ \<Rightarrow> ''list'' | VDict _ \<Rightarrow> ''dict'')"

fun is_infix :: "string \<Rightarrow> string \<Rightarrow> bool" where
  "is_infix key [] = (key = [])"
| "is_infix key (c # cs) = (take (length key) (c # cs) = key \<or> is_infix key cs)"

text \<open>\<^verbatim>\<open>key in v\<close> for a str key: membership in a dict or list, TypeError on a scalar.\<close>

definition py_in :: "string \<Rightarrow> pyval \<Rightarrow> error + bool" where
  "py_in key v =
     (case v of
        VDict kvs \<Rightarrow> Inr (map_of kvs key \<noteq> None)
      | VList xs \<Rightarrow> Inr (VStr key \<in> set xs)
      | VStr s \<Rightarrow> Inr (is_infix key s)
      | _ \<Rightarrow> Inl (TypeError (''argument of type '' @ quoted (type_name v) @ '' is not iterable'')))"

text \<open>\<^verbatim>\<open>v[key]\<close> for a str key.\<close>

definition py_getitem :: "pyval \<Rightarrow> string \<Rightarrow> error + pyval" where
  "py_getitem v key =
     (case v of
        VDict kvs \<Rightarrow> (case map_of kvs key of None \<Rightarrow> Inl (KeyError key) | Some x \<Rightarrow> Inr x)
      | VList _ \<Rightarrow> Inl (TypeError ''list indices must be integers or slices, not str'')
      | VStr _ \<Rightarrow> Inl (TypeError (''string indices must be integers, not '' @ quoted ''str''))
      | _ \<Rightarrow> Inl (TypeError (quoted (type_name v) @ '' object is not subscriptable'')))"

definition text_field :: "string \<Rightarrow> pyval \<Rightarrow> (error + string) \<Rightarrow> error + string" where
  "text_field key r otherwise =
     (case py_in key r of
        Inl e \<Rightarrow> Inl e
      | Inr True \<Rightarrow> (case py_getitem r key of Inl e \<Rightarrow> Inl e | Inr v \<Rightarrow> Inr (py_str v))
      | Inr False \<Rightarrow> otherwise)"

definition get_text_content :: "pyval \<Rightarrow> error + string" where
  "get_text_content r =
     (case r of
        VStr s \<Rightarrow> Inr s
      | _ \<Rightarrow> text_field ''content'' r
             (text_field ''text'' r
               (text_field ''data'' r (Inr (py_str r)))))"

text \<open>
  \<^verbatim>\<open>re.search\<close> of the Python library is a parameter: given the pattern and the text it
  raises (a malformed pattern), finds nothing, or returns the first matched span.
\<close>

type_synonym re_search = "string \<Rightarrow> string \<Rightarrow> error + string option"

definition extract_by_pattern :: "re_search \<Rightarrow> string \<Rightarrow> string \<Rightarrow> error + string" where
  "extract_by_pattern search txt pat =
     (case search pat txt of
        Inl e \<Rightarrow> Inl e
      | Inr None \<Rightarrow> Inl (ValueError (''Pattern '' @ quoted pat @ '' not found in content''))
      | Inr (Some m) \<Rightarrow> Inr m)"

fun split_on :: "char \<Rightarrow> string \<Rightarrow> string list" where
  "split_on sep [] = [[]]"
| "split_on sep (c # cs) =
     (if c = sep then [] # split_on sep cs
      else (case split_on sep cs of [] \<Rightarrow> [[c]] | w # ws \<Rightarrow> (c # w) # ws))"

text \<open>\<^verbatim>\<open>xs[i:j]\<close> with Python's clamping and negative bounds.\<close>

definition py_slice :: "'a list \<Rightarrow> int \<Rightarrow> int \<Rightarrow> 'a list" where
  "py_slice xs i j =
     (let n = int (length xs);
          norm = (\<lambda>k. if k < 0 then max 0 (n + k) else min k n);
          a = nat (norm i); b = nat (norm j)
      in take (b - a) (drop a xs))"

definition extract_by_lines :: "string \<Rightarrow> int \<Rightarrow> int \<Rightarrow> string" where
  "extract_by_lines txt start end_line =
     (let lines = split_on CHR 0x0A txt;
          start_idx = max 0 (start - 1);
          end_idx = min (int (length lines)) end_line
      in join [CHR 0x0A] (py_slice lines start_idx end_idx))"

definition path_error :: "string \<Rightarrow> string \<Rightarrow> error" where
  "path_error path part = KeyError (''Path '' @ quoted path @ '' not found at '' @ quoted part)"

text \<open>
  A list index must fit \<^verbatim>\<open>Py_ssize_t\<close> (64 bits here); a larger one is an IndexError
  of its own.
\<close>

definition max_index :: nat where
  "max_index = 2 ^ 63 - 1"

definition json_step :: "string \<Rightarrow> pyval \<Rightarrow> string \<Rightarrow> error + pyval" where
  "json_step path current part =
     (case current of
        VDict kvs \<Rightarrow>
          (case map_of kvs part of Some v \<Rightarrow> Inr v | None \<Rightarrow> Inl (path_error path part))
      | VList xs \<Rightarrow>
          if isdigit part then
            (case py_int part of
               Inl e \<Rightarrow> Inl e
             | Inr n \<Rightarrow>
                 if n > max_index
                 then Inl (IndexError (''cannot fit '' @ quoted ''int''
                        @ '' into an index-sized integer''))
                 else
                   (case py_index xs (int n) of
                      Some v \<Rightarrow> Inr v
                    | None \<Rightarrow> Inl (IndexError ''list index out of range'')))
          else Inl (path_error path part)
      | _ \<Rightarrow> Inl (path_error path part))"

fun walk_path :: "string \<Rightarrow> pyval \<Rightarrow> string list \<Rightarrow> error + pyval" where
  "walk_path path current [] = Inr current"
| "walk_path path current (part # parts) =
     (case json_step path current part of
        Inl e \<Rightarrow> Inl e
      | Inr v \<Rightarrow> walk_path path v parts)"

definition extract_by_json_path :: "pyval \<Rightarrow> string \<Rightarrow> error + pyval" where
  "extract_by_json_path res path = walk_path path res (split_on CHR ''.'' path)"

section \<open>The copy tool\<close>

text \<open>
  The arguments of \<^verbatim>\<open>execute_copy\<close> as \<^verbatim>\<open>copy_tool_definition\<close> types them:
  \<^verbatim>\<open>slot\<close> and \<^verbatim>\<open>source\<close> are required, an absent optional key is \<open>None\<close>.
\<close>

record copy_args =
  slot :: string
  source :: string
  pattern :: "string option"
  start_line :: "int option"
  end_line :: "int option"
  json_path :: "string option"

definition copy_report :: "string \<Rightarrow> string \<Rightarrow> string \<Rightarrow> pyval \<Rightarrow> pyval" where
  "copy_report slot_name source_ref method extracted =
     (let size = (case extracted of VStr s \<Rightarrow> length s | _ \<Rightarrow> length (py_str extracted))
      in VDict [(''success'', VBool True),
                (''slot'', VStr slot_name),
                (''source'', VStr source_ref),
                (''method'', VStr method),
                (''bytes_extracted'', VInt (int size)),
                (''preview'', VStr (truncate_value extracted 200))])"

definition execute_copy ::
  "re_search \<Rightarrow> clipboard \<Rightarrow> tool_result_store \<Rightarrow> copy_args \<Rightarrow> (error + pyval) \<times> clipboard"
where
  "execute_copy search cb rs args =
     (case get_result (source args) rs of
        Inl e \<Rightarrow> (Inl e, cb)
      | Inr src \<Rightarrow>
          (let extraction =
             (case json_path args of
                Some p \<Rightarrow>
                  (case extract_by_json_path (result src) p of
                     Inl e \<Rightarrow> Inl e
                   | Inr v \<Rightarrow> Inr (v, ''json_path='' @ p))
              | None \<Rightarrow>
                  (case pattern args of
                     Some pat \<Rightarrow>
                       (case get_text_content (result src) of
                          Inl e \<Rightarrow> Inl e
                        | Inr txt \<Rightarrow>
                            (case extract_by_pattern search txt pat of
                               Inl e \<Rightarrow> Inl e
                             | Inr m \<Rightarrow> Inr (VStr m, ''pattern='' @ take 50 pat @ ''...'')))
                   | None \<Rightarrow>
                       (case (start_line args, end_line args) of
                          (Some a, Some b) \<Rightarrow>
                            (case get_text_content (result src) of
                               Inl e \<Rightarrow> Inl e
                             | Inr txt \<Rightarrow>
                                 Inr (VStr (extract_by_lines txt a b),
                                      ''lines '' @ str_int a @ ''-'' @ str_int b))
                        | _ \<Rightarrow>
                            (case get_text_content (result src) of
                               Inl e \<Rightarrow> Inl e
                             | Inr txt \<Rightarrow> Inr (VStr txt, ''full content'')))))
           in case extraction of
                Inl e \<Rightarrow> (Inl e, cb)
              | Inr (extracted, method) \<Rightarrow>
                  (Inr (copy_report (slot args) (source args) method extracted),
                   set_slot (slot args) extracted cb)))"

section \<open>The template renderer\<close>

text \<open>
  \<^verbatim>\<open>SLOT_PATTERN\<close> is \<^verbatim>\<open>\{\{(\w+)\}\}\<close>. A match at the head of a string is two
  opening braces, the longest run of word characters, which must not be empty, and two
  closing braces: a shorter run is followed by a word character, so backtracking finds
  nothing more. \<open>match_at\<close> returns the name and the text after the match.
\<close>

definition match_at :: "string \<Rightarrow> (string \<times> string) option" where
  "match_at s =
     (case s of
        a # b # r \<Rightarrow>
          if a = CHR ''{'' \<and> b = CHR ''{'' \<and> takeWhile is_word r \<noteq> [] then
            (case dropWhile is_word r of
               c # d # r' \<Rightarrow>
                 if c = CHR ''}'' \<and> d = CHR ''}'' then Some (takeWhile is_word r, r') else None
             | _ \<Rightarrow> None)
          else None
      | _ \<Rightarrow> None)"

definition fullmatch :: "string \<Rightarrow> string option" where
  "fullmatch s = (case match_at s of Some (name, []) \<Rightarrow> Some name | _ \<Rightarrow> None)"

text \<open>
  \<^verbatim>\<open>replace_slot\<close>, the callback of \<^verbatim>\<open>SLOT_PATTERN.sub\<close>: the clipboard is mutable
  state, returned with the result and with the error.
\<close>

definition replace_slot :: "string \<Rightarrow> clipboard \<Rightarrow> (error + string) \<times> clipboard" where
  "replace_slot slot_name cb =
     (case get_slot slot_name cb of
        Inl e \<Rightarrow> (Inl e, cb)
      | Inr v \<Rightarrow> (Inr (py_str v), record_usage slot_name cb))"

text \<open>
  \<^verbatim>\<open>SLOT_PATTERN.sub(replace_slot, template)\<close>: the scan goes left to right; at a match
  the callback's text replaces it and the scan goes on after the match, elsewhere the
  character is copied.
\<close>

function sub_slots :: "string \<Rightarrow> clipboard \<Rightarrow> (error + string) \<times> clipboard" where
  "sub_slots [] cb = (Inr [], cb)"
| "sub_slots (c # cs) cb =
     (case match_at (c # cs) of
        Some (name, rest) \<Rightarrow>
          (case replace_slot name cb of
             (Inl e, cb') \<Rightarrow> (Inl e, cb')
           | (Inr txt, cb') \<Rightarrow>
               (case sub_slots rest cb' of
                  (Inl e, cb'') \<Rightarrow> (Inl e, cb'')
                | (Inr out, cb'') \<Rightarrow> (Inr (txt @ out), cb'')))
      | None \<Rightarrow>
          (case sub_slots cs cb of
             (Inl e, cb') \<Rightarrow> (Inl e, cb')
           | (Inr out, cb') \<Rightarrow> (Inr (c # out), cb')))"
  by pat_completeness auto
termination
proof (relation "measure (\<lambda>(s, cb). length s)")
  fix c :: char and cs :: string and cb cb' :: clipboard and m name rest
  assume "match_at (c # cs) = Some m" and "(name, rest) = m"
  then have m: "match_at (c # cs) = Some (name, rest)" by simp
  then obtain t where s: "c # cs = CHR ''{'' # CHR ''{'' # t"
    by (auto simp: match_at_def split: list.splits if_splits)
  from m s have "dropWhile is_word t = CHR ''}'' # CHR ''}'' # rest"
    by (auto simp: match_at_def split: list.splits if_splits)
  then have "length rest < length (dropWhile is_word t)" by simp
  also have "\<dots> \<le> length t" by (rule length_dropWhile_le)
  finally have "length rest < length (c # cs)" using s by simp
  then show "((rest, cb'), c # cs, cb) \<in> measure (\<lambda>(s, cb). length s)" by simp
qed auto

fun render_template :: "pyval \<Rightarrow> clipboard \<Rightarrow> (error + pyval) \<times> clipboard"
  and render_list :: "pyval list \<Rightarrow> clipboard \<Rightarrow> (error + pyval list) \<times> clipboard"
  and render_items ::
    "(string \<times> pyval) list \<Rightarrow> clipboard \<Rightarrow> (error + (string \<times> pyval) list) \<times> clipboard"
where
  "render_template (VStr t) cb =
     (case fullmatch (strip t) of
        Some slot_name \<Rightarrow>
          (case get_slot slot_name cb of
             Inl e \<Rightarrow> (Inl e, cb)
           | Inr v \<Rightarrow> (Inr v, record_usage slot_name cb))
      | None \<Rightarrow>
          (case sub_slots t cb of
             (Inl e, cb') \<Rightarrow> (Inl e, cb')
           | (Inr s, cb') \<Rightarrow> (Inr (VStr s), cb')))"
| "render_template (VDict kvs) cb =
     (case render_items kvs cb of
        (Inl e, cb') \<Rightarrow> (Inl e, cb')
      | (Inr kvs', cb') \<Rightarrow> (Inr (VDict kvs'), cb'))"
| "render_template (VList xs) cb =
     (case render_list xs cb of
        (Inl e, cb') \<Rightarrow> (Inl e, cb')
      | (Inr xs', cb') \<Rightarrow> (Inr (VList xs'), cb'))"
| "render_template VNone cb = (Inr VNone, cb)"
| "render_template (VBool b) cb = (Inr (VBool b), cb)"
| "render_template (VInt i) cb = (Inr (VInt i), cb)"
| "render_list [] cb = (Inr [], cb)"
| "render_list (x # xs) cb =
     (case render_template x cb of
        (Inl e, cb') \<Rightarrow> (Inl e, cb')
      | (Inr y, cb') \<Rightarrow>
          (case render_list xs cb' of
             (Inl e, cb'') \<Rightarrow> (Inl e, cb'')
           | (Inr ys, cb'') \<Rightarrow> (Inr (y # ys), cb'')))"
| "render_items [] cb = (Inr [], cb)"
| "render_items ((k, v) # kvs) cb =
     (case render_template v cb of
        (Inl e, cb') \<Rightarrow> (Inl e, cb')
      | (Inr y, cb') \<Rightarrow>
          (case render_items kvs cb' of
             (Inl e, cb'') \<Rightarrow> (Inl e, cb'')
           | (Inr ys, cb'') \<Rightarrow> (Inr ((k, y) # ys), cb'')))"

text \<open>
  The external \<^verbatim>\<open>execute_tool\<close>: it may raise, and it acts on a world \<open>'w\<close> (the file
  system, the network) that the core never reads.
\<close>

type_synonym 'w executor = "pyval \<Rightarrow> pyval \<Rightarrow> 'w \<Rightarrow> (error + pyval) \<times> 'w"

definition execute_template_invoke ::
  "'w executor \<Rightarrow> pyval \<Rightarrow> clipboard \<Rightarrow> 'w \<Rightarrow> (error + pyval) \<times> clipboard \<times> 'w"
where
  "execute_template_invoke tool_executor template cb w =
     (case py_getitem template ''tool'' of
        Inl e \<Rightarrow> (Inl e, cb, w)
      | Inr tool_name \<Rightarrow>
          (case py_getitem template ''parameters'' of
             Inl e \<Rightarrow> (Inl e, cb, w)
           | Inr raw_params \<Rightarrow>
               (case render_template raw_params cb of
                  (Inl e, cb') \<Rightarrow> (Inl e, cb', w)
                | (Inr rendered_params, cb') \<Rightarrow>
                    (case tool_executor tool_name rendered_params w of
                       (Inl e, w') \<Rightarrow> (Inl e, cb', w')
                     | (Inr res, w') \<Rightarrow>
                         (Inr (VDict [(''tool_executed'', tool_name),
                                      (''substitutions_applied'', VBool True),
                                      (''result'', res)]), cb', w')))))"

section \<open>ClipboardAgent\<close>

text \<open>
  The input of the \<^verbatim>\<open>copy\<close> tool arrives as a JSON object. \<open>copy_args_of\<close> is its
  typed reading when it fits the schema of \<^verbatim>\<open>copy_tool_definition\<close>.
  \<^verbatim>\<open>execute_copy\<close> validates nothing: on an input outside the schema (a missing key,
  a slot that is no string, a null pattern) Python goes on with the raw values. That
  behaviour is not modelled: it is the parameter \<open>untyped_copy\<close> of the dispatcher.
\<close>

definition str_field :: "(string \<times> pyval) list \<Rightarrow> string \<Rightarrow> string option" where
  "str_field kvs key = (case map_of kvs key of Some (VStr s) \<Rightarrow> Some s | _ \<Rightarrow> None)"

definition int_field :: "(string \<times> pyval) list \<Rightarrow> string \<Rightarrow> int option" where
  "int_field kvs key = (case map_of kvs key of Some (VInt i) \<Rightarrow> Some i | _ \<Rightarrow> None)"

definition absent_or_str :: "(string \<times> pyval) list \<Rightarrow> string \<Rightarrow> bool" where
  "absent_or_str kvs key =
     (case map_of kvs key of None \<Rightarrow> True | Some (VStr _) \<Rightarrow> True | Some _ \<Rightarrow> False)"

definition absent_or_int :: "(string \<times> pyval) list \<Rightarrow> string \<Rightarrow> bool" where
  "absent_or_int kvs key =
     (case map_of kvs key of None \<Rightarrow> True | Some (VInt _) \<Rightarrow> True | Some _ \<Rightarrow> False)"

definition copy_args_of :: "pyval \<Rightarrow> copy_args option" where
  "copy_args_of tool_input =
     (case tool_input of
        VDict kvs \<Rightarrow>
          (case (str_field kvs ''slot'', str_field kvs ''source'') of
             (Some sl, Some so) \<Rightarrow>
               if absent_or_str kvs ''pattern'' \<and> absent_or_int kvs ''start_line''
                  \<and> absent_or_int kvs ''end_line'' \<and> absent_or_str kvs ''json_path''
               then Some \<lparr>slot = sl, source = so, pattern = str_field kvs ''pattern'',
                          start_line = int_field kvs ''start_line'',
                          end_line = int_field kvs ''end_line'',
                          json_path = str_field kvs ''json_path''\<rparr>
               else None
           | _ \<Rightarrow> None)
      | _ \<Rightarrow> None)"

type_synonym untyped_copy =
  "clipboard \<Rightarrow> tool_result_store \<Rightarrow> pyval \<Rightarrow> (error + pyval) \<times> clipboard"

record call_record =
  cr_tool :: string
  cr_input :: pyval
  cr_used_clipboard :: bool
  cr_result :: pyval

record agent =
  ag_clipboard :: clipboard
  ag_result_store :: tool_result_store
  ag_tool_calls :: "call_record list"

definition init_agent :: agent where
  "init_agent =
     \<lparr>ag_clipboard = init_clipboard, ag_result_store = init_store, ag_tool_calls = []\<rparr>"

text \<open>
  \<^verbatim>\<open>_execute_tool_call\<close>: the three branches compute the result (and whether the
  clipboard was used); the record gets its result and joins \<^verbatim>\<open>tool_calls\<close> only after
  the branch has returned. There is no \<^verbatim>\<open>try\<close>: an error leaves at once.
\<close>

definition execute_tool_call ::
  "re_search \<Rightarrow> untyped_copy \<Rightarrow> 'w executor \<Rightarrow> string \<Rightarrow> pyval \<Rightarrow> agent \<Rightarrow> 'w
     \<Rightarrow> (error + pyval) \<times> agent \<times> 'w"
where
  "execute_tool_call search untyped execute_tool tool_name tool_input ag w =
     (let branch =
        (if tool_name = ''copy'' then
           (case (case copy_args_of tool_input of
                    Some args \<Rightarrow>
                      execute_copy search (ag_clipboard ag) (ag_result_store ag) args
                  | None \<Rightarrow> untyped (ag_clipboard ag) (ag_result_store ag) tool_input) of
              (Inl e, cb') \<Rightarrow> (Inl e, ag\<lparr>ag_clipboard := cb'\<rparr>, w)
            | (Inr res, cb') \<Rightarrow> (Inr (True, res), ag\<lparr>ag_clipboard := cb'\<rparr>, w))
         else if tool_name = ''template_invoke'' then
           (case py_getitem tool_input ''template'' of
              Inl e \<Rightarrow> (Inl e, ag, w)
            | Inr template \<Rightarrow>
                (case execute_template_invoke execute_tool template (ag_clipboard ag) w of
                   (Inl e, cb', w') \<Rightarrow> (Inl e, ag\<lparr>ag_clipboard := cb'\<rparr>, w')
                 | (Inr res, cb', w') \<Rightarrow> (Inr (True, res), ag\<lparr>ag_clipboard := cb'\<rparr>, w')))
         else
           (case execute_tool (VStr tool_name) tool_input w of
              (Inl e, w') \<Rightarrow> (Inl e, ag, w')
            | (Inr res, w') \<Rightarrow>
                (Inr (False, res),
                 ag\<lparr>ag_result_store := snd (store tool_name res (ag_result_store ag))\<rparr>, w')))
      in case branch of
           (Inl e, ag', w') \<Rightarrow> (Inl e, ag', w')
         | (Inr (used, res), ag', w') \<Rightarrow>
             (Inr res,
              ag'\<lparr>ag_tool_calls := ag_tool_calls ag'
                   @ [\<lparr>cr_tool = tool_name, cr_input = tool_input,
                        cr_used_clipboard = used, cr_result = res\<rparr>]\<rparr>,
              w'))"

section \<open>Vocabulary of the properties\<close>

text \<open>
  A run of \<^verbatim>\<open>store\<close> calls from the empty store, and the entries a tool name has
  after it, in append order.
\<close>

definition entry_of :: "string \<times> pyval \<Rightarrow> entry" where
  "entry_of c = \<lparr>tool = fst c, result = snd c\<rparr>"

definition store_all :: "(string \<times> pyval) list \<Rightarrow> tool_result_store" where
  "store_all calls = foldl (\<lambda>st c. snd (store (fst c) (snd c) st)) init_store calls"

definition results_of :: "string \<Rightarrow> (string \<times> pyval) list \<Rightarrow> entry list" where
  "results_of t calls = map entry_of (filter (\<lambda>c. fst c = t) calls)"

definition not_found :: "error + 'a \<Rightarrow> bool" where
  "not_found r = (case r of Inl (KeyError _) \<Rightarrow> True | _ \<Rightarrow> False)"

text \<open>An executor that raises on every call, and a search that never matches.\<close>

definition failing_tool :: "unit executor" where
  "failing_tool name args w = (Inl (KeyError ''path''), w)"

definition no_search :: re_search where
  "no_search pat txt = Inr None"

definition untyped_refused :: untyped_copy where
  "untyped_refused cb rs v = (Inl (TypeError ''input outside the schema''), cb)"


text \<open>
  A search for literal patterns, a store holding one \<^verbatim>\<open>read_file\<close> result of three
  lines, and a copy request that carries every optional field.
\<close>

definition literal_search :: re_search where
  "literal_search pat txt = Inr (if is_infix pat txt then Some pat else None)"

definition three_lines :: tool_result_store where
  "three_lines = snd (store ''read_file''
     (VDict [(''content'', VStr ''line1\<newline>line2\<newline>line3'')]) init_store)"

definition spec_all :: copy_args where
  "spec_all = \<lparr>slot = ''s'', source = ''last'', pattern = Some ''line3'',
     start_line = Some 2, end_line = Some 2, json_path = Some ''content''\<rparr>"

text \<open>
  The use count of a slot as \<^verbatim>\<open>get_token_savings_estimate\<close> reads it, and the
  invariant that \<^verbatim>\<open>set\<close> establishes: every slot has an entry in \<^verbatim>\<open>_usage_count\<close>
  (\<^verbatim>\<open>record_usage\<close> counts only such slots).
\<close>

definition use_count :: "clipboard \<Rightarrow> string \<Rightarrow> nat" where
  "use_count cb n = get_default (cb_usage_count cb) n 0"

definition accounted :: "clipboard \<Rightarrow> bool" where
  "accounted cb = list_all (\<lambda>n. map_of (cb_usage_count cb) n \<noteq> None) (map fst (cb_slots cb))"

text \<open>
  The text of a placeholder, the names \<^verbatim>\<open>\w+\<close> admits, and text in which
  \<^verbatim>\<open>SLOT_PATTERN\<close> matches nowhere. A template string is literal text and placeholders
  in turn, \<open>unparse\<close>; \<open>expand\<close> puts a text for each name in the placeholder's place.
\<close>

definition placeholder :: "string \<Rightarrow> string" where
  "placeholder n = ''{{'' @ n @ ''}}''"

definition is_identifier :: "string \<Rightarrow> bool" where
  "is_identifier n = (n \<noteq> [] \<and> list_all is_word n)"

fun plain :: "string \<Rightarrow> bool" where
  "plain [] = True"
| "plain (c # cs) = (match_at (c # cs) = None \<and> plain cs)"

fun unparse :: "(string \<times> string) list \<Rightarrow> string \<Rightarrow> string" where
  "unparse [] final = final"
| "unparse ((l, n) # ps) final = l @ placeholder n @ unparse ps final"

fun expand :: "(string \<Rightarrow> string) \<Rightarrow> (string \<times> string) list \<Rightarrow> string \<Rightarrow> string" where
  "expand f [] final = final"
| "expand f ((l, n) # ps) final = l @ f n @ expand f ps final"

text \<open>The textual form \<^verbatim>\<open>str(value)\<close> of a slot's value.\<close>

definition slot_text :: "clipboard \<Rightarrow> string \<Rightarrow> string" where
  "slot_text cb n = (case map_of (cb_slots cb) n of Some v \<Rightarrow> py_str v | None \<Rightarrow> [])"

text \<open>
  The names of the placeholders of a template in the order in which
  \<^verbatim>\<open>render_template\<close> meets them: the matches of \<^verbatim>\<open>SLOT_PATTERN\<close> in a string from
  left to right, the values of a dict and the items of a list in their order.
\<close>

function slot_names :: "string \<Rightarrow> string list" where
  "slot_names [] = []"
| "slot_names (c # cs) =
     (case match_at (c # cs) of
        Some (name, rest) \<Rightarrow> name # slot_names rest
      | None \<Rightarrow> slot_names cs)"
  by pat_completeness auto
termination
proof (relation "measure length")
  fix c :: char and cs :: string and m name rest
  assume "match_at (c # cs) = Some m" and "(name, rest) = m"
  then have m: "match_at (c # cs) = Some (name, rest)" by simp
  then obtain t where s: "c # cs = CHR ''{'' # CHR ''{'' # t"
    by (auto simp: match_at_def split: list.splits if_splits)
  from m s have "dropWhile is_word t = CHR ''}'' # CHR ''}'' # rest"
    by (auto simp: match_at_def split: list.splits if_splits)
  then have "length rest < length (dropWhile is_word t)" by simp
  also have "\<dots> \<le> length t" by (rule length_dropWhile_le)
  finally have "length rest < length (c # cs)" using s by simp
  then show "(rest, c # cs) \<in> measure length" by simp
qed auto

fun placeholders :: "pyval \<Rightarrow> string list"
  and placeholders_list :: "pyval list \<Rightarrow> string list"
  and placeholders_items :: "(string \<times> pyval) list \<Rightarrow> string list"
where
  "placeholders (VStr t) =
     (case fullmatch (strip t) of Some name \<Rightarrow> [name] | None \<Rightarrow> slot_names t)"
| "placeholders (VDict kvs) = placeholders_items kvs"
| "placeholders (VList xs) = placeholders_list xs"
| "placeholders VNone = []"
| "placeholders (VBool b) = []"
| "placeholders (VInt i) = []"
| "placeholders_list [] = []"
| "placeholders_list (x # xs) = placeholders x @ placeholders_list xs"
| "placeholders_items [] = []"
| "placeholders_items ((k, v) # kvs) = placeholders v @ placeholders_items kvs"

text \<open>
  The placeholders before the first one that names no slot, and whether every
  placeholder names a slot. \<open>tallies cb ns out\<close>: a computation that meets the
  placeholders \<open>ns\<close> has recorded one usage for each of those resolved before the first
  unknown one, and fails exactly when there is an unknown one.
\<close>

definition resolved :: "clipboard \<Rightarrow> string list \<Rightarrow> string list" where
  "resolved cb ns = takeWhile (\<lambda>n. has n cb) ns"

definition all_known :: "clipboard \<Rightarrow> string list \<Rightarrow> bool" where
  "all_known cb ns = list_all (\<lambda>n. has n cb) ns"

definition tallies :: "clipboard \<Rightarrow> string list \<Rightarrow> (error + 'a) \<times> clipboard \<Rightarrow> bool" where
  "tallies cb ns out =
     (snd out = fold record_usage (resolved cb ns) cb \<and> (isl (fst out) \<longleftrightarrow> \<not> all_known cb ns))"

text \<open>
  Clipboards with one slot holding the number 42, one slot holding a mapping, and two
  slots; a template whose second string names the unknown slot \<^verbatim>\<open>zz\<close> after three
  known placeholders.
\<close>

definition data_clipboard :: clipboard where
  "data_clipboard = set_slot ''data'' (VInt 42) init_clipboard"

definition cfg_clipboard :: clipboard where
  "cfg_clipboard = set_slot ''cfg'' (VDict [(''k'', VList [VInt 1, VInt 2])]) init_clipboard"

definition two_slots :: clipboard where
  "two_slots = set_slot ''b'' (VInt 7) (set_slot ''a'' (VStr ''x'') init_clipboard)"

definition mixed_template :: pyval where
  "mixed_template = VList [VStr ''{{a}}'', VStr ''{{b}}-{{a}}-{{zz}}-{{b}}'']"

section \<open>Savings estimate\<close>


text \<open>
  C7. \<^verbatim>\<open>clear(slot)\<close> pops the slot from \<^verbatim>\<open>_slots\<close> only. After
  \<^verbatim>\<open>set("a", "hello")\<close> and \<^verbatim>\<open>clear("a")\<close> no slot exists, yet \<open>bytes_stored\<close> is
  still 5; with one recorded usage before the clear, \<open>bytes_substituted\<close> is still 5.
\<close>

theorem clear_keeps_accounting:
  "list_slots (clear (Some ''a'') (set_slot ''a'' (VStr ''hello'') init_clipboard)) = []
   \<and> bytes_stored (get_token_savings_estimate
        (clear (Some ''a'') (set_slot ''a'' (VStr ''hello'') init_clipboard))) = 5
   \<and> bytes_substituted (get_token_savings_estimate
        (clear (Some ''a'') (record_usage ''a'' (set_slot ''a'' (VStr ''hello'') init_clipboard)))) = 5"
  by (simp add: list_slots_def clear_def set_slot_def init_clipboard_def record_usage_def
      get_token_savings_estimate_def get_default_def AList.delete_eq)

section \<open>Path extraction\<close>

text \<open>
  C6. On \<^verbatim>\<open>{"items": ["a","b","c"]}\<close> the path \<^verbatim>\<open>items.1\<close> yields \<^verbatim>\<open>"b"\<close> and a
  missing key is the KeyError that names the path and the segment, but the out-of-range
  index of \<^verbatim>\<open>items.9\<close> leaves as the IndexError of the list access, which names
  neither.
\<close>

theorem json_path_out_of_range:
  "extract_by_json_path (VDict [(''items'', VList [VStr ''a'', VStr ''b'', VStr ''c''])]) ''items.9''
     = Inl (IndexError ''list index out of range'')
   \<and> extract_by_json_path (VDict [(''items'', VList [VStr ''a'', VStr ''b'', VStr ''c''])]) ''items.1''
     = Inr (VStr ''b'')
   \<and> extract_by_json_path (VDict [(''items'', VList [VStr ''a'', VStr ''b'', VStr ''c''])]) ''item.1''
     = Inl (path_error ''item.1'' ''item'')"
  by (simp add: extract_by_json_path_def json_step_def isdigit_def is_digit_char_def is_decimal_def
      py_int_def py_index_def digit_val_def max_index_def)

section \<open>Result store\<close>

lemma of_char_digit_char: "d < 10 \<Longrightarrow> (of_char (digit_char d) :: nat) = 48 + d"
  by (simp add: digit_char_def)

lemma is_decimal_digit_char: "d < 10 \<Longrightarrow> is_decimal (digit_char d)"
  by (simp add: is_decimal_def of_char_digit_char)

lemma digit_val_digit_char: "d < 10 \<Longrightarrow> digit_val (digit_char d) = d"
  by (simp add: digit_val_def of_char_digit_char)

lemma str_nat_decimal: "list_all is_decimal (str_nat n) \<and> str_nat n \<noteq> []"
proof (induction n rule: str_nat.induct)
  case (1 n)
  show ?case
  proof (cases "n < 10")
    case True
    then show ?thesis by (simp add: str_nat.simps [of n] is_decimal_digit_char)
  next
    case False
    with 1 show ?thesis by (simp add: str_nat.simps [of n] is_decimal_digit_char)
  qed
qed

lemma str_nat_value: "foldl (\<lambda>a c. 10 * a + digit_val c) 0 (str_nat n) = n"
proof (induction n rule: str_nat.induct)
  case (1 n)
  show ?case
  proof (cases "n < 10")
    case True
    then show ?thesis by (simp add: str_nat.simps [of n] digit_val_digit_char)
  next
    case False
    with 1 show ?thesis by (simp add: str_nat.simps [of n] digit_val_digit_char)
  qed
qed

lemma py_int_str_nat: "py_int (str_nat n) = Inr n"
  using str_nat_decimal [of n] by (simp add: py_int_def str_nat_value)

lemma isdigit_str_nat: "isdigit (str_nat n)"
  using str_nat_decimal [of n]
  by (auto simp: isdigit_def is_digit_char_def list_all_iff)

lemma colon_free_str_nat: "CHR '':'' \<notin> set (str_nat n)"
proof
  assume "CHR '':'' \<in> set (str_nat n)"
  with str_nat_decimal [of n] have "is_decimal CHR '':''" by (auto simp: list_all_iff)
  then show False by (simp add: is_decimal_def)
qed

lemma rsplit1_append: "sep \<notin> set d \<Longrightarrow> rsplit1 sep (t @ sep # d) = (t, d)"
proof -
  assume d: "sep \<notin> set d"
  have tw: "takeWhile (\<lambda>c. c \<noteq> sep) (rev d @ sep # rev t) = rev d"
    using d by (auto simp: takeWhile_append2 takeWhile_tail)
  have dw: "dropWhile (\<lambda>c. c \<noteq> sep) (rev d @ sep # rev t) = sep # rev t"
    using d by (auto simp: dropWhile_append3)
  show ?thesis by (simp add: rsplit1_def tw dw)
qed

lemma parse_source_indexed: "parse_source (t @ CHR '':'' # str_nat i) = Inr (t, int i)"
  by (simp add: parse_source_def rsplit1_append colon_free_str_nat isdigit_str_nat py_int_str_nat)

lemma parse_source_bare: "CHR '':'' \<notin> set t \<Longrightarrow> parse_source t = Inr (t, - 1)"
  by (simp add: parse_source_def)

lemma indexed_not_last: "t @ CHR '':'' # d \<noteq> ''last''"
proof
  assume "t @ CHR '':'' # d = ''last''"
  then have "CHR '':'' \<in> set ''last''" by (metis in_set_conv_decomp)
  then show False by simp
qed

lemma get_result_indexed:
  "get_result (t @ CHR '':'' # str_nat i) st =
     (case map_of (st_by_tool st) t of
        None \<Rightarrow> Inl (KeyError (''No results for tool '' @ quoted t @ ''. Available: ''
                   @ py_repr (VList (map (VStr \<circ> fst) (st_by_tool st)))))
      | Some rs \<Rightarrow>
          if i < length rs then Inr (rs ! i)
          else Inl (KeyError (''Index '' @ str_int (int i) @ '' out of range for '' @ quoted t
                 @ '' (has '' @ str_nat (length rs) @ '' results)'')))"
  by (simp add: get_result_def indexed_not_last parse_source_indexed py_index_def
      split: option.splits)

lemma get_result_bare:
  "t \<noteq> ''last'' \<Longrightarrow> CHR '':'' \<notin> set t \<Longrightarrow> map_of (st_by_tool st) t = Some rs \<Longrightarrow> rs \<noteq> []
     \<Longrightarrow> get_result t st = Inr (last rs)"
proof -
  assume t: "t \<noteq> ''last''" "CHR '':'' \<notin> set t" and m: "map_of (st_by_tool st) t = Some rs"
    and rs: "rs \<noteq> []"
  have "nat (int (length rs) - 1) = length rs - 1" by simp
  with rs have "py_index rs (- 1) = Some (last rs)"
    by (simp add: py_index_def last_conv_nth)
  with t m show ?thesis by (simp add: get_result_def parse_source_bare)
qed

lemma map_of_store:
  "map_of (st_by_tool (snd (store t v st))) t' =
     (if t' = t then Some (get_default (st_by_tool st) t [] @ [\<lparr>tool = t, result = v\<rparr>])
      else map_of (st_by_tool st) t')"
  by (auto simp: store_def Let_def map_of_map_entry update_conv' get_default_def
      split: option.splits)

lemma last_store: "st_last (snd (store t v st)) = Some \<lparr>tool = t, result = v\<rparr>"
  by (simp add: store_def Let_def)

lemma store_all_snoc: "store_all (cs @ [c]) = snd (store (fst c) (snd c) (store_all cs))"
  by (simp add: store_all_def)

lemma store_all_by_tool:
  "map_of (st_by_tool (store_all calls)) t =
     (if results_of t calls = [] then None else Some (results_of t calls))"
proof (induction calls rule: rev_induct)
  case Nil
  then show ?case by (simp add: store_all_def init_store_def results_of_def)
next
  case (snoc c cs)
  then show ?case
    by (cases c) (auto simp: store_all_snoc map_of_store results_of_def get_default_def entry_of_def)
qed

lemma store_all_last:
  "st_last (store_all calls) = (if calls = [] then None else Some (entry_of (last calls)))"
  by (cases calls rule: rev_cases)
     (simp_all add: store_all_snoc last_store entry_of_def, simp add: store_all_def init_store_def)

lemma str_nat_0: "str_nat 0 = ''0''"
  by code_simp

lemma str_nat_2: "str_nat (Suc (Suc 0)) = ''2''"
  by code_simp

text \<open>
  C2. After any run of \<^verbatim>\<open>store\<close> calls, \<^verbatim>\<open>get("last")\<close> is the entry stored
  last, and a KeyError before any store; for a tool name with \<open>k\<close> entries,
  \<^verbatim>\<open>get(name:i)\<close> is the \<open>i\<close>-th entry in append order for \<open>i < k\<close> and
  \<^verbatim>\<open>get(name:k)\<close> is a KeyError; the bare name gives the newest entry of that name
  when the name is not \<^verbatim>\<open>last\<close> and holds no colon.
\<close>

theorem resolve_after_stores:
  "(let st = store_all calls; rs = results_of t calls; k = length rs in
      get_result ''last'' st
        = (if calls = [] then Inl (KeyError ''No tool results stored yet'')
           else Inr (entry_of (last calls)))
    \<and> (\<forall>i < k. get_result (t @ '':'' @ str_nat i) st = Inr (rs ! i))
    \<and> not_found (get_result (t @ '':'' @ str_nat k) st)
    \<and> (0 < k \<and> t \<noteq> ''last'' \<and> CHR '':'' \<notin> set t \<longrightarrow> get_result t st = Inr (last rs)))"
proof -
  have a: "get_result ''last'' (store_all calls)
        = (if calls = [] then Inl (KeyError ''No tool results stored yet'')
           else Inr (entry_of (last calls)))"
    by (simp add: get_result_def store_all_last)
  have b: "get_result (t @ '':'' @ str_nat i) (store_all calls) = Inr (results_of t calls ! i)"
    if "i < length (results_of t calls)" for i
    using that by (auto simp: get_result_indexed store_all_by_tool)
  have c: "not_found (get_result (t @ '':'' @ str_nat (length (results_of t calls))) (store_all calls))"
    by (simp add: get_result_indexed store_all_by_tool not_found_def)
  have d: "get_result t (store_all calls) = Inr (last (results_of t calls))"
    if "0 < length (results_of t calls)" "t \<noteq> ''last''" "CHR '':'' \<notin> set t"
    using that by (intro get_result_bare) (auto simp: store_all_by_tool)
  show ?thesis unfolding Let_def using a b c d by blast
qed

text \<open>The scenario of the specification: two results under \<^verbatim>\<open>read_file\<close>.\<close>

theorem resolve_after_stores_witness:
  "get_result ''read_file:0'' (store_all [(''read_file'', VInt 1), (''read_file'', VInt 2)])
     = Inr \<lparr>tool = ''read_file'', result = VInt 1\<rparr>
   \<and> get_result ''read_file'' (store_all [(''read_file'', VInt 1), (''read_file'', VInt 2)])
     = Inr \<lparr>tool = ''read_file'', result = VInt 2\<rparr>
   \<and> not_found (get_result ''read_file:2'' (store_all [(''read_file'', VInt 1), (''read_file'', VInt 2)]))"
proof -
  let ?calls = "[(''read_file'', VInt 1), (''read_file'', VInt 2)]"
  let ?rs = "[\<lparr>tool = ''read_file'', result = VInt 1\<rparr>, \<lparr>tool = ''read_file'', result = VInt 2\<rparr>]"
  have rs: "results_of ''read_file'' ?calls = ?rs"
    by (simp add: results_of_def entry_of_def)
  note th = resolve_after_stores [of ?calls "''read_file''", unfolded Let_def rs]
  note b = th [THEN conjunct2, THEN conjunct1]
  note c = th [THEN conjunct2, THEN conjunct2, THEN conjunct1]
  note d = th [THEN conjunct2, THEN conjunct2, THEN conjunct2]
  have b0: "get_result (''read_file'' @ '':'' @ str_nat 0) (store_all ?calls) = Inr (?rs ! 0)"
    using b by simp
  have d': "get_result ''read_file'' (store_all ?calls) = Inr (last ?rs)"
    using d by simp
  from b0 c d' show ?thesis by (simp add: str_nat_0 str_nat_2)
qed

text \<open>
  The bare reference of a tool called \<^verbatim>\<open>last\<close> is the newest entry of any tool, and
  the bare reference of a name with a colon is split at the colon.
\<close>

theorem bare_last_counterexample:
  "get_result ''last'' (store_all [(''last'', VInt 1), (''x'', VInt 2)])
     \<noteq> Inr (last (results_of ''last'' [(''last'', VInt 1), (''x'', VInt 2)]))
   \<and> get_result ''a:b'' (store_all [(''a:b'', VInt 1)])
     = Inl (KeyError (''Invalid index in source '' @ quoted ''a:b''))"
proof -
  have a: "get_result ''last'' (store_all [(''last'', VInt 1), (''x'', VInt 2)])
      = Inr \<lparr>tool = ''x'', result = VInt 2\<rparr>"
    by (simp add: get_result_def store_all_last entry_of_def)
  have b: "last (results_of ''last'' [(''last'', VInt 1), (''x'', VInt 2)])
      = \<lparr>tool = ''last'', result = VInt 1\<rparr>"
    by (simp add: results_of_def entry_of_def)
  have c: "parse_source ''a:b'' = Inl (KeyError (''Invalid index in source '' @ quoted ''a:b''))"
    by (simp add: parse_source_def rsplit1_def isdigit_def is_digit_char_def is_decimal_def)
  have d: "get_result ''a:b'' st = Inl (KeyError (''Invalid index in source '' @ quoted ''a:b''))" for st
    by (simp add: get_result_def c)
  show ?thesis by (simp add: a b d)
qed

text \<open>
  C8. \<^verbatim>\<open>store\<close> appends the entry to the list of its tool name and leaves the other
  lists alone, makes it the last entry, and returns \<^verbatim>\<open>None\<close>; the entry is then
  found under the ordinal that is the number of earlier entries of that name. It is a
  total function: it has no error result.
\<close>

theorem store_appends:
  "(let e = \<lparr>tool = t, result = v\<rparr>;
        old = get_default (st_by_tool st) t [];
        st' = snd (store t v st) in
      fst (store t v st) = VNone
    \<and> map_of (st_by_tool st') t = Some (old @ [e])
    \<and> (\<forall>t'. t' \<noteq> t \<longrightarrow> map_of (st_by_tool st') t' = map_of (st_by_tool st) t')
    \<and> st_last st' = Some e
    \<and> get_result (t @ '':'' @ str_nat (length old)) st' = Inr e)"
proof -
  have "fst (store t v st) = VNone" by (simp add: store_def Let_def)
  then show ?thesis
    by (simp add: Let_def map_of_store last_store get_result_indexed)
qed

theorem store_appends_witness:
  "map_of (st_by_tool (snd (store ''b'' (VInt 7) (snd (store ''a'' (VInt 1) init_store))))) ''a''
     = Some [\<lparr>tool = ''a'', result = VInt 1\<rparr>]
   \<and> get_result ''b:0'' (snd (store ''b'' (VInt 7) (snd (store ''a'' (VInt 1) init_store))))
     = Inr \<lparr>tool = ''b'', result = VInt 7\<rparr>"
proof -
  let ?st = "snd (store ''a'' (VInt 1) init_store)"
  have a: "map_of (st_by_tool ?st) ''a'' = Some [\<lparr>tool = ''a'', result = VInt 1\<rparr>]"
    by (simp add: store_def init_store_def Let_def)
  have b: "get_default (st_by_tool ?st) ''b'' [] = []"
    by (simp add: store_def init_store_def get_default_def Let_def)
  have ne: "''a'' \<noteq> ''b''" by simp
  note th = store_appends [of "''b''" "VInt 7" ?st, unfolded Let_def b]
  note other = th [THEN conjunct2, THEN conjunct2, THEN conjunct1, rule_format, OF ne]
  note res = th [THEN conjunct2, THEN conjunct2, THEN conjunct2, THEN conjunct2]
  from other res a show ?thesis by (simp add: str_nat_0)
qed

text \<open>The value of \<^verbatim>\<open>store\<close> is \<^verbatim>\<open>None\<close>, not the ordinal 0 of the first entry.\<close>

theorem store_returns_none_counterexample:
  "fst (store ''read_file'' (VStr ''x'') init_store) = VNone
   \<and> fst (store ''read_file'' (VStr ''x'') init_store) \<noteq> VInt 0"
  by (simp add: store_def Let_def)

section \<open>Tool dispatch\<close>

text \<open>
  C9. When the executor raises, \<^verbatim>\<open>_execute_tool_call\<close> returns that error unchanged
  and the call is not recorded: for a direct tool call the agent, with its
  \<^verbatim>\<open>tool_calls\<close> and its result store, is as before the call; through
  \<^verbatim>\<open>template_invoke\<close> the usage that rendering recorded in the clipboard stays, and
  again nothing joins \<^verbatim>\<open>tool_calls\<close>.
\<close>

theorem tool_error_not_recorded:
  "(tool_name \<noteq> ''copy'' \<and> tool_name \<noteq> ''template_invoke''
      \<and> execute_tool (VStr tool_name) tool_input w = (Inl e, w')
    \<longrightarrow> execute_tool_call search untyped execute_tool tool_name tool_input ag w
          = (Inl e, ag, w'))
   \<and> (py_getitem tool_input ''template'' = Inr template
      \<and> py_getitem template ''tool'' = Inr tn
      \<and> py_getitem template ''parameters'' = Inr ps
      \<and> render_template ps (ag_clipboard ag) = (Inr rendered, cb')
      \<and> execute_tool tn rendered w = (Inl e, w')
    \<longrightarrow> execute_tool_call search untyped execute_tool ''template_invoke'' tool_input ag w
          = (Inl e, ag\<lparr>ag_clipboard := cb'\<rparr>, w'))"
  by (simp add: execute_tool_call_def execute_template_invoke_def)

theorem tool_error_not_recorded_witness:
  "execute_tool_call no_search untyped_refused failing_tool ''read_file'' (VDict []) init_agent ()
     = (Inl (KeyError ''path''), init_agent, ())
   \<and> execute_tool_call no_search untyped_refused failing_tool ''template_invoke''
        (VDict [(''template'', VDict [(''tool'', VStr ''read_file''), (''parameters'', VDict [])])])
        init_agent ()
     = (Inl (KeyError ''path''), init_agent\<lparr>ag_clipboard := init_clipboard\<rparr>, ())"
proof -
  let ?tpl = "VDict [(''tool'', VStr ''read_file''), (''parameters'', VDict [])]"
  note th1 = tool_error_not_recorded [where tool_name = "''read_file''" and execute_tool = failing_tool
      and tool_input = "VDict []" and w = "()" and e = "KeyError ''path''" and w' = "()"
      and ag = init_agent and search = no_search and untyped = untyped_refused,
      THEN conjunct1, rule_format]
  note th2 = tool_error_not_recorded [where execute_tool = failing_tool
      and tool_input = "VDict [(''template'', ?tpl)]" and w = "()" and e = "KeyError ''path''"
      and w' = "()" and ag = init_agent and search = no_search and untyped = untyped_refused
      and template = ?tpl and tn = "VStr ''read_file''" and ps = "VDict []"
      and rendered = "VDict []" and cb' = init_clipboard, THEN conjunct2, rule_format]
  have a: "''read_file'' \<noteq> ''copy'' \<and> ''read_file'' \<noteq> ''template_invoke''
      \<and> failing_tool (VStr ''read_file'') (VDict []) () = (Inl (KeyError ''path''), ())"
    by (simp add: failing_tool_def)
  have b: "py_getitem (VDict [(''template'', ?tpl)]) ''template'' = Inr ?tpl
      \<and> py_getitem ?tpl ''tool'' = Inr (VStr ''read_file'')
      \<and> py_getitem ?tpl ''parameters'' = Inr (VDict [])
      \<and> render_template (VDict []) (ag_clipboard init_agent) = (Inr (VDict []), init_clipboard)
      \<and> failing_tool (VStr ''read_file'') (VDict []) () = (Inl (KeyError ''path''), ())"
    by (simp add: py_getitem_def failing_tool_def init_agent_def)
  from th1 [OF a] th2 [OF b] show ?thesis by simp
qed

text \<open>A raising \<^verbatim>\<open>read_file\<close> on a fresh agent: the error comes back, the log stays empty.\<close>

theorem failed_call_recorded_counterexample:
  "fst (execute_tool_call no_search untyped_refused failing_tool ''read_file'' (VDict [])
          init_agent ())
     = Inl (KeyError ''path'')
   \<and> ag_tool_calls (fst (snd (execute_tool_call no_search untyped_refused failing_tool
          ''read_file'' (VDict []) init_agent ()))) = []"
  by (simp add: execute_tool_call_def failing_tool_def init_agent_def)

text \<open>
  The log is not idle: a call whose executor returns is recorded with its result, and
  the result is stored.
\<close>

lemma tool_result_recorded:
  "tool_name \<noteq> ''copy'' \<Longrightarrow> tool_name \<noteq> ''template_invoke''
     \<Longrightarrow> execute_tool (VStr tool_name) tool_input w = (Inr res, w')
     \<Longrightarrow> execute_tool_call search untyped execute_tool tool_name tool_input ag w
         = (Inr res,
            ag\<lparr>ag_result_store := snd (store tool_name res (ag_result_store ag)),
               ag_tool_calls := ag_tool_calls ag
                 @ [\<lparr>cr_tool = tool_name, cr_input = tool_input,
                      cr_used_clipboard = False, cr_result = res\<rparr>]\<rparr>,
            w')"
  by (simp add: execute_tool_call_def)

section \<open>Extraction mode\<close>

text \<open>
  C5. Once the source reference has resolved, \<^verbatim>\<open>execute_copy\<close> applies exactly one
  extraction: by \<^verbatim>\<open>json_path\<close> whenever that field is present, whatever else is; else
  by \<^verbatim>\<open>pattern\<close> when present; else by line range when both bounds are present; else
  the full text. The slot and the report hold that one extraction's value.
\<close>

theorem copy_mode_precedence:
  "get_result (source args) rs = Inr src \<longrightarrow>
     (json_path args = Some p \<longrightarrow>
        execute_copy search cb rs args =
          (case extract_by_json_path (result src) p of
             Inl e \<Rightarrow> (Inl e, cb)
           | Inr v \<Rightarrow> (Inr (copy_report (slot args) (source args) (''json_path='' @ p) v),
                       set_slot (slot args) v cb)))
   \<and> (json_path args = None \<and> pattern args = Some pat \<longrightarrow>
        execute_copy search cb rs args =
          (case get_text_content (result src) of
             Inl e \<Rightarrow> (Inl e, cb)
           | Inr t \<Rightarrow>
               (case extract_by_pattern search t pat of
                  Inl e \<Rightarrow> (Inl e, cb)
                | Inr m \<Rightarrow> (Inr (copy_report (slot args) (source args)
                                   (''pattern='' @ take 50 pat @ ''...'') (VStr m)),
                            set_slot (slot args) (VStr m) cb))))
   \<and> (json_path args = None \<and> pattern args = None
        \<and> start_line args = Some a \<and> end_line args = Some b \<longrightarrow>
        execute_copy search cb rs args =
          (case get_text_content (result src) of
             Inl e \<Rightarrow> (Inl e, cb)
           | Inr t \<Rightarrow> (Inr (copy_report (slot args) (source args)
                              (''lines '' @ str_int a @ ''-'' @ str_int b)
                              (VStr (extract_by_lines t a b))),
                       set_slot (slot args) (VStr (extract_by_lines t a b)) cb)))
   \<and> (json_path args = None \<and> pattern args = None
        \<and> (start_line args = None \<or> end_line args = None) \<longrightarrow>
        execute_copy search cb rs args =
          (case get_text_content (result src) of
             Inl e \<Rightarrow> (Inl e, cb)
           | Inr t \<Rightarrow> (Inr (copy_report (slot args) (source args) ''full content'' (VStr t)),
                       set_slot (slot args) (VStr t) cb)))"
  by (auto simp: execute_copy_def Let_def split: sum.splits option.splits)

lemma three_lines_last:
  "get_result ''last'' three_lines
     = Inr \<lparr>tool = ''read_file'',
            result = VDict [(''content'', VStr ''line1\<newline>line2\<newline>line3'')]\<rparr>"
  by (simp add: three_lines_def get_result_def store_def Let_def)

lemma content_by_path: "extract_by_json_path (VDict [(''content'', VStr ''line1\<newline>line2\<newline>line3'')]) ''content''
   = Inr (VStr ''line1\<newline>line2\<newline>line3'')"
  by (simp add: extract_by_json_path_def json_step_def)

lemma content_as_text: "get_text_content (VDict [(''content'', VStr ''line1\<newline>line2\<newline>line3'')])
   = Inr ''line1\<newline>line2\<newline>line3''"
  by (simp add: get_text_content_def text_field_def py_in_def py_getitem_def py_str_def)

lemma line3_by_pattern: "extract_by_pattern literal_search ''line1\<newline>line2\<newline>line3'' ''line3'' = Inr ''line3''"
  by (simp add: extract_by_pattern_def literal_search_def)

lemma line2_by_lines: "extract_by_lines ''line1\<newline>line2\<newline>line3'' 2 2 = ''line2''"
  by (simp add: extract_by_lines_def py_slice_def)

text \<open>
  The request with all fields extracts by path; dropping the path, by pattern; dropping
  the pattern, by lines; dropping one bound, the full text.
\<close>

theorem copy_mode_precedence_witness:
  "map_of (cb_slots (snd (execute_copy literal_search init_clipboard three_lines spec_all))) ''s''
     = Some (VStr ''line1\<newline>line2\<newline>line3'')
   \<and> map_of (cb_slots (snd (execute_copy literal_search init_clipboard three_lines
         (spec_all\<lparr>json_path := None\<rparr>)))) ''s''
     = Some (VStr ''line3'')
   \<and> map_of (cb_slots (snd (execute_copy literal_search init_clipboard three_lines
         (spec_all\<lparr>json_path := None, pattern := None\<rparr>)))) ''s''
     = Some (VStr ''line2'')
   \<and> map_of (cb_slots (snd (execute_copy literal_search init_clipboard three_lines
         (spec_all\<lparr>json_path := None, pattern := None, end_line := None\<rparr>)))) ''s''
     = Some (VStr ''line1\<newline>line2\<newline>line3'')"
proof -
  let ?src = "\<lparr>tool = ''read_file'',
     result = VDict [(''content'', VStr ''line1\<newline>line2\<newline>line3'')]\<rparr>"
  have src: "get_result (source a) three_lines = Inr ?src" if "source a = ''last''" for a
    using that by (simp add: three_lines_last)
  have s1: "source spec_all = ''last''" by (simp add: spec_all_def)
  have s2: "source (spec_all\<lparr>json_path := None\<rparr>) = ''last''" by (simp add: spec_all_def)
  have s3: "source (spec_all\<lparr>json_path := None, pattern := None\<rparr>) = ''last''"
    by (simp add: spec_all_def)
  have s4: "source (spec_all\<lparr>json_path := None, pattern := None, end_line := None\<rparr>) = ''last''"
    by (simp add: spec_all_def)
  have h1: "json_path spec_all = Some ''content''" by (simp add: spec_all_def)
  have h2: "json_path (spec_all\<lparr>json_path := None\<rparr>) = None
      \<and> pattern (spec_all\<lparr>json_path := None\<rparr>) = Some ''line3''"
    by (simp add: spec_all_def)
  have h3: "json_path (spec_all\<lparr>json_path := None, pattern := None\<rparr>) = None
      \<and> pattern (spec_all\<lparr>json_path := None, pattern := None\<rparr>) = None
      \<and> start_line (spec_all\<lparr>json_path := None, pattern := None\<rparr>) = Some 2
      \<and> end_line (spec_all\<lparr>json_path := None, pattern := None\<rparr>) = Some 2"
    by (simp add: spec_all_def)
  have h4: "json_path (spec_all\<lparr>json_path := None, pattern := None, end_line := None\<rparr>) = None
      \<and> pattern (spec_all\<lparr>json_path := None, pattern := None, end_line := None\<rparr>) = None
      \<and> (start_line (spec_all\<lparr>json_path := None, pattern := None, end_line := None\<rparr>) = None
         \<or> end_line (spec_all\<lparr>json_path := None, pattern := None, end_line := None\<rparr>) = None)"
    by (simp add: spec_all_def)
  note t1 = copy_mode_precedence [where search = literal_search and cb = init_clipboard,
      THEN mp, OF src [OF s1], THEN conjunct1, THEN mp, OF h1]
  note t2 = copy_mode_precedence [where search = literal_search and cb = init_clipboard,
      THEN mp, OF src [OF s2], THEN conjunct2, THEN conjunct1, THEN mp, OF h2]
  note t3 = copy_mode_precedence [where search = literal_search and cb = init_clipboard,
      THEN mp, OF src [OF s3], THEN conjunct2, THEN conjunct2, THEN conjunct1, THEN mp, OF h3]
  note t4 = copy_mode_precedence [where search = literal_search and cb = init_clipboard,
      THEN mp, OF src [OF s4], THEN conjunct2, THEN conjunct2, THEN conjunct2, THEN mp, OF h4]
  have a: "map_of (cb_slots (snd (execute_copy literal_search init_clipboard three_lines spec_all))) ''s''
     = Some (VStr ''line1\<newline>line2\<newline>line3'')"
    by (subst t1) (simp add: content_by_path set_slot_def init_clipboard_def spec_all_def)
  have b: "map_of (cb_slots (snd (execute_copy literal_search init_clipboard three_lines
         (spec_all\<lparr>json_path := None\<rparr>)))) ''s'' = Some (VStr ''line3'')"
    by (subst t2) (simp add: content_as_text line3_by_pattern set_slot_def init_clipboard_def spec_all_def)
  have c: "map_of (cb_slots (snd (execute_copy literal_search init_clipboard three_lines
         (spec_all\<lparr>json_path := None, pattern := None\<rparr>)))) ''s'' = Some (VStr ''line2'')"
    by (subst t3) (simp add: content_as_text line2_by_lines set_slot_def init_clipboard_def spec_all_def)
  have d: "map_of (cb_slots (snd (execute_copy literal_search init_clipboard three_lines
         (spec_all\<lparr>json_path := None, pattern := None, end_line := None\<rparr>)))) ''s''
     = Some (VStr ''line1\<newline>line2\<newline>line3'')"
    by (subst t4) (simp add: content_as_text set_slot_def init_clipboard_def spec_all_def)
  from a b c d show ?thesis by blast
qed

section \<open>Usage accounting\<close>

text \<open>
  \<^verbatim>\<open>record_usage\<close> touches neither the slots nor the stored sizes, and it adds one to
  the count of a slot that \<^verbatim>\<open>_usage_count\<close> knows.
\<close>

lemma slots_record_usage [simp]: "cb_slots (record_usage n cb) = cb_slots cb"
  by (simp add: record_usage_def split: option.splits)

lemma bytes_record_usage [simp]: "cb_bytes_stored (record_usage n cb) = cb_bytes_stored cb"
  by (simp add: record_usage_def split: option.splits)

lemma usage_record_usage:
  "map_of (cb_usage_count (record_usage n cb)) m =
     (if m = n then map_option Suc (map_of (cb_usage_count cb) n)
      else map_of (cb_usage_count cb) m)"
  by (simp add: record_usage_def update_conv' split: option.splits)

lemma slots_fold_record_usage [simp]: "cb_slots (fold record_usage ns cb) = cb_slots cb"
  by (induction ns arbitrary: cb) simp_all

lemma bytes_fold_record_usage [simp]:
  "cb_bytes_stored (fold record_usage ns cb) = cb_bytes_stored cb"
  by (induction ns arbitrary: cb) simp_all

lemma slot_text_record_usage [simp]: "slot_text (record_usage n cb) = slot_text cb"
  by (simp add: slot_text_def fun_eq_iff)

lemma use_count_record_usage:
  "map_of (cb_usage_count cb) n \<noteq> None
     \<Longrightarrow> use_count (record_usage n cb) m = use_count cb m + (if m = n then 1 else 0)"
  by (auto simp: use_count_def get_default_def usage_record_usage)

text \<open>
  Every operation of \<^verbatim>\<open>ClipboardState\<close> keeps the invariant, so it holds of every
  clipboard built from the empty one.
\<close>

lemma accounted_init: "accounted init_clipboard"
  by (simp add: accounted_def init_clipboard_def)

lemma accounted_set_slot: "accounted cb \<Longrightarrow> accounted (set_slot n v cb)"
proof -
  assume a: "accounted cb"
  have "map_of (AList.update n 0 (cb_usage_count cb)) m \<noteq> None"
    if "m \<in> fst ` set (AList.update n v (cb_slots cb))" for m
  proof (cases "m = n")
    case True
    then show ?thesis by (simp add: update_conv')
  next
    case False
    with that have "m \<in> fst ` set (cb_slots cb)" by (simp add: dom_update)
    with a have "map_of (cb_usage_count cb) m \<noteq> None"
      by (auto simp: accounted_def list_all_iff)
    with False show ?thesis by (simp add: update_conv')
  qed
  then show ?thesis by (simp add: accounted_def list_all_iff set_slot_def Let_def)
qed

lemma accounted_clear: "accounted cb \<Longrightarrow> accounted (clear n cb)"
  by (auto simp: accounted_def list_all_iff clear_def AList.delete_eq split: option.splits)

lemma accounted_record_usage: "accounted cb \<Longrightarrow> accounted (record_usage n cb)"
  by (fastforce simp: accounted_def list_all_iff usage_record_usage)

lemma accounted_tracked:
  "accounted cb \<Longrightarrow> map_of (cb_slots cb) n = Some v \<Longrightarrow> map_of (cb_usage_count cb) n \<noteq> None"
  by (auto simp: accounted_def list_all_iff dest!: map_of_SomeD) force

lemma use_count_fold:
  "accounted cb \<Longrightarrow> list_all (\<lambda>n. map_of (cb_slots cb) n \<noteq> None) ns
     \<Longrightarrow> use_count (fold record_usage ns cb) m = use_count cb m + count_list ns m"
proof (induction ns arbitrary: cb)
  case Nil
  then show ?case by simp
next
  case (Cons n ns)
  from Cons.prems obtain v where v: "map_of (cb_slots cb) n = Some v" by auto
  with Cons.prems have t: "map_of (cb_usage_count cb) n \<noteq> None"
    by (auto dest: accounted_tracked)
  have "use_count (fold record_usage ns (record_usage n cb)) m
      = use_count (record_usage n cb) m + count_list ns m"
    using Cons.prems by (intro Cons.IH) (simp_all add: accounted_record_usage)
  with t show ?case by (simp add: use_count_record_usage)
qed

section \<open>Rendering a template string\<close>

text \<open>The pattern matches at a placeholder, and only there.\<close>

lemma not_word_braces: "\<not> is_word CHR ''{''" "\<not> is_word CHR ''}''"
  by (simp_all add: is_word_def)

lemma match_at_placeholder:
  "is_identifier n \<Longrightarrow> match_at (placeholder n @ r) = Some (n, r)"
proof -
  assume n: "is_identifier n"
  then have w: "\<And>x. x \<in> set n \<Longrightarrow> is_word x" and ne: "n \<noteq> []"
    by (auto simp: is_identifier_def list_all_iff)
  have tw: "takeWhile is_word (n @ CHR ''}'' # CHR ''}'' # r) = n"
    using w by (simp add: not_word_braces)
  have dw: "dropWhile is_word (n @ CHR ''}'' # CHR ''}'' # r) = CHR ''}'' # CHR ''}'' # r"
    using w by (simp add: not_word_braces)
  show ?thesis
    using ne by (simp add: match_at_def placeholder_def tw dw)
qed

lemma fullmatch_placeholder: "is_identifier n \<Longrightarrow> fullmatch (placeholder n) = Some n"
  using match_at_placeholder [of n "[]"] by (simp add: fullmatch_def)

lemma match_at_SomeD:
  assumes "match_at s = Some (n, r)"
  shows "s = placeholder n @ r \<and> is_identifier n"
proof -
  from assms obtain t where s: "s = CHR ''{'' # CHR ''{'' # t"
    by (auto simp: match_at_def split: list.splits if_splits)
  from assms s have n: "n = takeWhile is_word t" and ne: "takeWhile is_word t \<noteq> []"
    and d: "dropWhile is_word t = CHR ''}'' # CHR ''}'' # r"
    by (auto simp: match_at_def split: list.splits if_splits)
  have "t = takeWhile is_word t @ dropWhile is_word t" by simp
  with n d have t: "t = n @ CHR ''}'' # CHR ''}'' # r" by simp
  have "x \<in> set (takeWhile is_word t) \<Longrightarrow> is_word x" for x
    by (rule set_takeWhileD [THEN conjunct2])
  with n ne have "is_identifier n" by (auto simp: is_identifier_def list_all_iff)
  with s t show ?thesis by (simp add: placeholder_def)
qed

lemma match_at_append_None:
  assumes l: "match_at l = None" "l \<noteq> []"
    and s: "s = [] \<or> (\<exists>r. s = CHR ''{'' # CHR ''{'' # r)"
  shows "match_at (l @ s) = None"
proof (cases l)
  case Nil
  with l show ?thesis by simp
next
  case (Cons a l1)
  show ?thesis
  proof (cases l1)
    case Nil
    with Cons s show ?thesis
      by (auto simp: match_at_def not_word_braces split: list.splits)
  next
    case (Cons b l2)
    note l1 = this
    show ?thesis
    proof (cases "a = CHR ''{'' \<and> b = CHR ''{''")
      case False
      with \<open>l = a # l1\<close> l1 show ?thesis by (auto simp: match_at_def)
    next
      case True
      show ?thesis
      proof (cases "\<forall>x \<in> set l2. is_word x")
        case True
        then have tw: "takeWhile is_word (l2 @ s) = l2 @ takeWhile is_word s"
          and dw: "dropWhile is_word (l2 @ s) = dropWhile is_word s"
          by simp_all
        from s have "dropWhile is_word s = s" "takeWhile is_word s = []"
          by (auto simp: not_word_braces)
        moreover from True have "dropWhile is_word l2 = []" by simp
        ultimately show ?thesis
          using tw dw s \<open>l = a # l1\<close> l1
          by (auto simp: match_at_def split: list.splits)
      next
        case False
        then obtain x where x: "x \<in> set l2" "\<not> is_word x" by blast
        then have tw: "takeWhile is_word (l2 @ s) = takeWhile is_word l2"
          and dw: "dropWhile is_word (l2 @ s) = dropWhile is_word l2 @ s"
          by simp_all
        from x have ne: "dropWhile is_word l2 \<noteq> []" by auto
        have m: "takeWhile is_word l2 = [] \<or>
            (\<forall>r'. dropWhile is_word l2 \<noteq> CHR ''}'' # CHR ''}'' # r')"
        proof (rule ccontr)
          assume "\<not> ?thesis"
          then obtain r' where "takeWhile is_word l2 \<noteq> []"
            and "dropWhile is_word l2 = CHR ''}'' # CHR ''}'' # r'" by blast
          with \<open>l = a # l1\<close> l1 True have "match_at l = Some (takeWhile is_word l2, r')"
            by (simp add: match_at_def)
          with l show False by simp
        qed
        show ?thesis
        proof (cases "dropWhile is_word l2")
          case Nil
          with ne show ?thesis by simp
        next
          case (Cons c d)
          with m s tw dw \<open>l = a # l1\<close> l1 True show ?thesis
            by (cases d) (auto simp: match_at_def split: list.splits)
        qed
      qed
    qed
  qed
qed

text \<open>
  Every string is literal text and placeholders in turn: the decomposition that the
  interpolation property speaks about always exists.
\<close>

lemma every_template_parses:
  "\<exists>ps final. s = unparse ps final
     \<and> list_all (\<lambda>(l, n). plain l \<and> is_identifier n) ps \<and> plain final"
proof (induction s rule: slot_names.induct)
  case 1
  have "[] = unparse [] [] \<and> list_all (\<lambda>(l, n). plain l \<and> is_identifier n) [] \<and> plain []"
    by simp
  then show ?case by blast
next
  case (2 c cs)
  show ?case
  proof (cases "match_at (c # cs)")
    case (Some m)
    obtain n rest where m: "m = (n, rest)" by (cases m)
    from Some m have d: "c # cs = placeholder n @ rest" and i: "is_identifier n"
      using match_at_SomeD [of "c # cs" n rest] by simp_all
    from "2.IH"(2) [OF Some m [symmetric]] obtain ps final where
      "rest = unparse ps final" "list_all (\<lambda>(l, n). plain l \<and> is_identifier n) ps" "plain final"
      by blast
    with d i have "c # cs = unparse (([], n) # ps) final
        \<and> list_all (\<lambda>(l, n). plain l \<and> is_identifier n) (([], n) # ps) \<and> plain final"
      by simp
    then show ?thesis by blast
  next
    case None
    from "2.IH"(1) [OF None] obtain ps final where
      cs: "cs = unparse ps final" and ps: "list_all (\<lambda>(l, n). plain l \<and> is_identifier n) ps"
      and fin: "plain final"
      by blast
    show ?thesis
    proof (cases ps)
      case Nil
      with cs None fin have "c # cs = unparse [] (c # final)
          \<and> list_all (\<lambda>(l, n). plain l \<and> is_identifier n) [] \<and> plain (c # final)"
        by simp
      then show ?thesis by blast
    next
      case (Cons p ps')
      obtain l n where p: "p = (l, n)" by (cases p)
      have "match_at (c # l) = None"
      proof (rule ccontr)
        assume "match_at (c # l) \<noteq> None"
        then obtain n' r' where "match_at (c # l) = Some (n', r')" by auto
        then have "c # l = placeholder n' @ r'" and "is_identifier n'"
          using match_at_SomeD by simp_all
        with cs Cons p have "c # cs = placeholder n' @ (r' @ placeholder n @ unparse ps' final)"
          by simp
        with \<open>is_identifier n'\<close> have "match_at (c # cs) \<noteq> None"
          using match_at_placeholder [of n' "r' @ placeholder n @ unparse ps' final"] by simp
        with None show False by simp
      qed
      with cs ps fin Cons p have "c # cs = unparse ((c # l, n) # ps') final
          \<and> list_all (\<lambda>(l, n). plain l \<and> is_identifier n) ((c # l, n) # ps') \<and> plain final"
        by simp
      then show ?thesis by blast
    qed
  qed
qed

text \<open>The substitution copies literal text and replaces a placeholder of a known slot.\<close>

lemma replace_slot_found:
  "map_of (cb_slots cb) n = Some v
     \<Longrightarrow> replace_slot n cb = (Inr (py_str v), record_usage n cb)"
  by (simp add: replace_slot_def get_slot_def)

lemma sub_slots_plain:
  "plain l \<Longrightarrow> s = [] \<or> (\<exists>r. s = CHR ''{'' # CHR ''{'' # r)
     \<Longrightarrow> sub_slots (l @ s) cb =
         (case sub_slots s cb of
            (Inl e, cb') \<Rightarrow> (Inl e, cb')
          | (Inr out, cb') \<Rightarrow> (Inr (l @ out), cb'))"
proof (induction l)
  case Nil
  then show ?case by (simp split: prod.splits sum.splits)
next
  case (Cons c l)
  from Cons.prems have "match_at ((c # l) @ s) = None"
    by (intro match_at_append_None) simp_all
  then have "sub_slots ((c # l) @ s) cb =
      (case sub_slots (l @ s) cb of
         (Inl e, cb') \<Rightarrow> (Inl e, cb')
       | (Inr out, cb') \<Rightarrow> (Inr (c # out), cb'))"
    by simp
  with Cons show ?case by (simp split: prod.splits sum.splits)
qed

lemma sub_slots_plain_only: "plain l \<Longrightarrow> sub_slots l cb = (Inr l, cb)"
  using sub_slots_plain [of l "[]" cb] by simp

lemma sub_slots_placeholder:
  "is_identifier n \<Longrightarrow> map_of (cb_slots cb) n = Some v
     \<Longrightarrow> sub_slots (placeholder n @ r) cb =
         (case sub_slots r (record_usage n cb) of
            (Inl e, cb') \<Rightarrow> (Inl e, cb')
          | (Inr out, cb') \<Rightarrow> (Inr (py_str v @ out), cb'))"
proof -
  assume n: "is_identifier n" and v: "map_of (cb_slots cb) n = Some v"
  obtain c cs where p: "placeholder n @ r = c # cs" by (simp add: placeholder_def)
  from match_at_placeholder [OF n, of r] p have "match_at (c # cs) = Some (n, r)" by simp
  then have "sub_slots (c # cs) cb =
         (case sub_slots r (record_usage n cb) of
            (Inl e, cb') \<Rightarrow> (Inl e, cb')
          | (Inr out, cb') \<Rightarrow> (Inr (py_str v @ out), cb'))"
    by (simp add: replace_slot_found [OF v])
  with p show ?thesis by simp
qed

lemma sub_slots_unparse:
  "list_all (\<lambda>(l, n). plain l \<and> is_identifier n \<and> map_of (cb_slots cb) n \<noteq> None) ps
     \<Longrightarrow> plain final
     \<Longrightarrow> sub_slots (unparse ps final) cb
         = (Inr (expand (slot_text cb) ps final), fold record_usage (map snd ps) cb)"
proof (induction ps arbitrary: cb)
  case Nil
  then show ?case by (simp add: sub_slots_plain_only)
next
  case (Cons p ps)
  obtain l n where p: "p = (l, n)" by (cases p)
  from Cons.prems p obtain v where l: "plain l" and n: "is_identifier n"
    and v: "map_of (cb_slots cb) n = Some v" by auto
  have rest: "sub_slots (unparse ps final) (record_usage n cb)
      = (Inr (expand (slot_text cb) ps final), fold record_usage (map snd ps) (record_usage n cb))"
    using Cons.IH [of "record_usage n cb"] Cons.prems by simp
  have st: "placeholder n @ unparse ps final = [] \<or>
      (\<exists>r. placeholder n @ unparse ps final = CHR ''{'' # CHR ''{'' # r)"
    by (simp add: placeholder_def)
  have "sub_slots (l @ placeholder n @ unparse ps final) cb
      = (Inr (l @ py_str v @ expand (slot_text cb) ps final),
         fold record_usage (map snd ps) (record_usage n cb))"
    by (simp add: sub_slots_plain [OF l st] sub_slots_placeholder [OF n v] rest)
  moreover from v have "slot_text cb n = py_str v" by (simp add: slot_text_def)
  ultimately show ?case using p by simp
qed

text \<open>
  C1. When the template string, stripped of surrounding whitespace, is exactly one
  placeholder \<^verbatim>\<open>{{n}}\<close> and \<open>n\<close> names a slot holding \<open>v\<close>, \<^verbatim>\<open>render_template\<close>
  returns \<open>v\<close> itself, whatever its type (not its textual form), and the clipboard
  after the call is the one before it with one usage recorded on \<open>n\<close>: the slots are
  unchanged, the use count of \<open>n\<close> is one more and every other use count is unchanged.
\<close>

theorem render_sole_placeholder:
  "strip t = placeholder n \<Longrightarrow> is_identifier n \<Longrightarrow> map_of (cb_slots cb) n = Some v
     \<Longrightarrow> accounted cb
     \<Longrightarrow> render_template (VStr t) cb = (Inr v, record_usage n cb)
       \<and> cb_slots (record_usage n cb) = cb_slots cb
       \<and> use_count (record_usage n cb) n = use_count cb n + 1
       \<and> (\<forall>m. m \<noteq> n \<longrightarrow> use_count (record_usage n cb) m = use_count cb m)"
proof -
  assume t: "strip t = placeholder n" and n: "is_identifier n"
    and v: "map_of (cb_slots cb) n = Some v" and a: "accounted cb"
  from a v have u: "map_of (cb_usage_count cb) n \<noteq> None" by (rule accounted_tracked)
  have "render_template (VStr t) cb = (Inr v, record_usage n cb)"
    by (simp add: t fullmatch_placeholder [OF n] get_slot_def v)
  with u show ?thesis by (simp add: use_count_record_usage)
qed

theorem render_sole_placeholder_witness:
  "render_template (VStr '' {{cfg}}  '') cfg_clipboard
     = (Inr (VDict [(''k'', VList [VInt 1, VInt 2])]), record_usage ''cfg'' cfg_clipboard)
   \<and> use_count (record_usage ''cfg'' cfg_clipboard) ''cfg'' = 1
   \<and> fst (render_template (VStr ''{{data}}'') data_clipboard) = Inr (VInt 42)"
proof -
  have s1: "strip '' {{cfg}}  '' = placeholder ''cfg''" by code_simp
  have s2: "strip ''{{data}}'' = placeholder ''data''" by code_simp
  have i1: "is_identifier ''cfg''" by code_simp
  have i2: "is_identifier ''data''" by code_simp
  have v1: "map_of (cb_slots cfg_clipboard) ''cfg'' = Some (VDict [(''k'', VList [VInt 1, VInt 2])])"
    by code_simp
  have v2: "map_of (cb_slots data_clipboard) ''data'' = Some (VInt 42)" by code_simp
  have a1: "accounted cfg_clipboard" by code_simp
  have a2: "accounted data_clipboard" by code_simp
  have u: "use_count cfg_clipboard ''cfg'' = 0" by code_simp
  from render_sole_placeholder [OF s1 i1 v1 a1] render_sole_placeholder [OF s2 i2 v2 a2] u
  show ?thesis by simp
qed

text \<open>
  C3. When the template string is not solely one placeholder, and it reads as the
  literal texts and placeholders \<open>ps\<close> followed by the literal text \<open>final\<close>, every
  placeholder naming a slot, \<^verbatim>\<open>render_template\<close> returns the string in which each
  placeholder, from left to right, is replaced by \<^verbatim>\<open>str\<close> of its slot's value and the
  literal texts are unchanged; the slots are unchanged and the use count of every slot
  grows by the number of occurrences of its placeholder. With the slot \<^verbatim>\<open>data\<close> holding
  42, \<^verbatim>\<open>n={{data}}\<close> renders to \<^verbatim>\<open>n=42\<close>.
\<close>

theorem render_interpolates:
  "list_all (\<lambda>(l, n). plain l \<and> is_identifier n \<and> map_of (cb_slots cb) n \<noteq> None) ps
     \<Longrightarrow> plain final
     \<Longrightarrow> fullmatch (strip (unparse ps final)) = None
     \<Longrightarrow> accounted cb
     \<Longrightarrow> render_template (VStr (unparse ps final)) cb
           = (Inr (VStr (expand (slot_text cb) ps final)), fold record_usage (map snd ps) cb)
       \<and> cb_slots (fold record_usage (map snd ps) cb) = cb_slots cb
       \<and> (\<forall>m. use_count (fold record_usage (map snd ps) cb) m
                = use_count cb m + count_list (map snd ps) m)"
proof -
  assume ps: "list_all (\<lambda>(l, n). plain l \<and> is_identifier n \<and> map_of (cb_slots cb) n \<noteq> None) ps"
    and fin: "plain final" and nf: "fullmatch (strip (unparse ps final)) = None"
    and a: "accounted cb"
  have r: "render_template (VStr (unparse ps final)) cb
      = (Inr (VStr (expand (slot_text cb) ps final)), fold record_usage (map snd ps) cb)"
    by (simp add: nf sub_slots_unparse [OF ps fin])
  from ps have "list_all (\<lambda>n. map_of (cb_slots cb) n \<noteq> None) (map snd ps)"
    by (auto simp: list_all_iff)
  with a have "use_count (fold record_usage (map snd ps) cb) m
      = use_count cb m + count_list (map snd ps) m" for m
    by (rule use_count_fold)
  with r show ?thesis by simp
qed

theorem render_interpolates_witness:
  "render_template (VStr ''n={{data}}'') data_clipboard
     = (Inr (VStr ''n=42''), record_usage ''data'' data_clipboard)
   \<and> fst (render_template (VStr ''{{data}}+{{data}}.'') data_clipboard) = Inr (VStr ''42+42.'')
   \<and> use_count (snd (render_template (VStr ''{{data}}+{{data}}.'') data_clipboard)) ''data'' = 2"
proof -
  have a: "accounted data_clipboard" by code_simp
  have p1: "list_all (\<lambda>(l, n). plain l \<and> is_identifier n
        \<and> map_of (cb_slots data_clipboard) n \<noteq> None) [(''n='', ''data'')]" by code_simp
  have p2: "list_all (\<lambda>(l, n). plain l \<and> is_identifier n
        \<and> map_of (cb_slots data_clipboard) n \<noteq> None) [('''', ''data''), (''+'', ''data'')]"
    by code_simp
  have f1: "plain ''''" by simp
  have f2: "plain ''.''" by code_simp
  have n1: "fullmatch (strip (unparse [(''n='', ''data'')] '''')) = None" by code_simp
  have n2: "fullmatch (strip (unparse [('''', ''data''), (''+'', ''data'')] ''.'')) = None"
    by code_simp
  have u1: "unparse [(''n='', ''data'')] '''' = ''n={{data}}''" by code_simp
  have u2: "unparse [('''', ''data''), (''+'', ''data'')] ''.'' = ''{{data}}+{{data}}.''" by code_simp
  have e1: "expand (slot_text data_clipboard) [(''n='', ''data'')] '''' = ''n=42''" by code_simp
  have e2: "expand (slot_text data_clipboard) [('''', ''data''), (''+'', ''data'')] ''.'' = ''42+42.''"
    by code_simp
  have c0: "use_count data_clipboard ''data'' = 0" by code_simp
  note t1 = render_interpolates [OF p1 f1 n1 a, unfolded u1 e1]
  note t2 = render_interpolates [OF p2 f2 n2 a, unfolded u2 e2]
  from t1 t2 c0 show ?thesis by simp
qed

section \<open>A render that fails\<close>

text \<open>
  Recording a usage changes no answer of \<^verbatim>\<open>has\<close>, so the placeholders resolved before
  the first unknown one are the same in every clipboard of a render.
\<close>

lemma has_map_of: "has n cb \<longleftrightarrow> map_of (cb_slots cb) n \<noteq> None"
  by (simp add: has_def map_of_eq_None_iff)

lemma has_record_usage [simp]: "has n (record_usage m cb) = has n cb"
  by (simp add: has_def)

lemma has_fold_record_usage [simp]: "has n (fold record_usage ns cb) = has n cb"
  by (simp add: has_def)

lemma resolved_fold [simp]: "resolved (fold record_usage ms cb) ns = resolved cb ns"
  by (simp add: resolved_def)

lemma all_known_fold [simp]: "all_known (fold record_usage ms cb) ns = all_known cb ns"
  by (simp add: all_known_def)

lemma resolved_all: "all_known cb ns \<Longrightarrow> resolved cb ns = ns"
  by (simp add: resolved_def all_known_def list_all_iff)

lemma resolved_known: "list_all (\<lambda>n. map_of (cb_slots cb) n \<noteq> None) (resolved cb ns)"
proof -
  have "x \<in> set (takeWhile (\<lambda>n. has n cb) ns) \<Longrightarrow> has x cb" for x
    by (rule set_takeWhileD [THEN conjunct2])
  then show ?thesis by (auto simp: resolved_def list_all_iff has_map_of)
qed

text \<open>The accounting of a sequence of two computations, and of the renderer.\<close>

lemma tallies_Nil: "tallies cb [] (Inr x, cb)"
  by (simp add: tallies_def resolved_def all_known_def)

lemma tallies_seq:
  assumes first: "tallies cb ns1 (r1, cb1)"
    and second: "\<And>x. r1 = Inr x \<Longrightarrow> tallies cb1 ns2 (k x)"
  shows "tallies cb (ns1 @ ns2) (case r1 of Inl e \<Rightarrow> (Inl e, cb1) | Inr x \<Rightarrow> k x)"
proof (cases r1)
  case (Inl e)
  with first have nk: "\<not> all_known cb ns1" and cb1: "cb1 = fold record_usage (resolved cb ns1) cb"
    by (simp_all add: tallies_def)
  from nk have "resolved cb (ns1 @ ns2) = resolved cb ns1"
    by (auto simp: resolved_def all_known_def list_all_iff takeWhile_append)
  moreover from nk have "\<not> all_known cb (ns1 @ ns2)" by (simp add: all_known_def)
  ultimately show ?thesis using Inl cb1 by (simp add: tallies_def)
next
  case (Inr x)
  with first have k1: "all_known cb ns1" and cb1: "cb1 = fold record_usage ns1 cb"
    by (simp_all add: tallies_def resolved_all)
  from second [OF Inr] cb1
  have s: "snd (k x) = fold record_usage (resolved cb ns2) (fold record_usage ns1 cb)"
    and i: "isl (fst (k x)) \<longleftrightarrow> \<not> all_known cb ns2"
    by (simp_all add: tallies_def)
  from k1 have "resolved cb (ns1 @ ns2) = ns1 @ resolved cb ns2"
    by (auto simp: resolved_def all_known_def list_all_iff takeWhile_append)
  moreover from k1 have "all_known cb (ns1 @ ns2) = all_known cb ns2"
    by (simp add: all_known_def)
  ultimately show ?thesis using Inr s i by (simp add: tallies_def)
qed

lemma tallies_map:
  "tallies cb ns (r, cb') \<Longrightarrow> tallies cb ns (case r of Inl e \<Rightarrow> (Inl e, cb') | Inr x \<Rightarrow> (Inr (f x), cb'))"
  by (cases r) (simp_all add: tallies_def)

lemma tallies_seq2:
  assumes first: "tallies cb ns1 out1"
    and second: "\<And>x. fst out1 = Inr x \<Longrightarrow> tallies (snd out1) ns2 (k x (snd out1))"
  shows "tallies cb (ns1 @ ns2)
           (case out1 of (Inl e, cb1) \<Rightarrow> (Inl e, cb1) | (Inr x, cb1) \<Rightarrow> k x cb1)"
proof -
  obtain r1 cb1 where o: "out1 = (r1, cb1)" by (cases out1)
  have "tallies cb (ns1 @ ns2) (case r1 of Inl e \<Rightarrow> (Inl e, cb1) | Inr x \<Rightarrow> k x cb1)"
    using first second unfolding o by (intro tallies_seq) simp_all
  with o show ?thesis by simp
qed

lemma tallies_map2:
  "tallies cb ns out
     \<Longrightarrow> tallies cb ns (case out of (Inl e, cb') \<Rightarrow> (Inl e, cb') | (Inr x, cb') \<Rightarrow> (Inr (f x), cb'))"
  by (cases out) (auto simp: tallies_def split: sum.splits)

lemma tallies_replace_slot: "tallies cb [n] (replace_slot n cb)"
  by (auto simp: tallies_def replace_slot_def get_slot_def resolved_def all_known_def has_map_of
      split: option.splits)

lemma tallies_get:
  "tallies cb [n] (case get_slot n cb of Inl e \<Rightarrow> (Inl e, cb) | Inr v \<Rightarrow> (Inr v, record_usage n cb))"
  by (auto simp: tallies_def get_slot_def resolved_def all_known_def has_map_of
      split: option.splits)

lemma tallies_sub_slots: "tallies cb (slot_names s) (sub_slots s cb)"
proof (induction s cb rule: sub_slots.induct)
  case (1 cb)
  show ?case by (simp add: tallies_Nil)
next
  case (2 c cs cb)
  show ?case
  proof (cases "match_at (c # cs)")
    case None
    with "2.IH"(1) have "tallies cb (slot_names cs) (sub_slots cs cb)" by simp
    from tallies_map2 [OF this, of "\<lambda>out. c # out"] None show ?thesis by simp
  next
    case (Some m)
    obtain n rest where m: "m = (n, rest)" by (cases m)
    have rec: "tallies (snd (replace_slot n cb)) (slot_names rest)
        (case sub_slots rest (snd (replace_slot n cb)) of
           (Inl e, cb'') \<Rightarrow> (Inl e, cb'')
         | (Inr out, cb'') \<Rightarrow> (Inr (x @ out), cb''))"
      if "fst (replace_slot n cb) = Inr x" for x
    proof -
      have "tallies (snd (replace_slot n cb)) (slot_names rest)
          (sub_slots rest (snd (replace_slot n cb)))"
        using "2.IH"(2) [OF Some m [symmetric], of "fst (replace_slot n cb)" "snd (replace_slot n cb)" x]
          that by (simp add: prod_eq_iff)
      then show ?thesis by (rule tallies_map2)
    qed
    have "tallies cb ([n] @ slot_names rest)
        (case replace_slot n cb of
           (Inl e, cb') \<Rightarrow> (Inl e, cb')
         | (Inr x, cb') \<Rightarrow>
             (case sub_slots rest cb' of
                (Inl e, cb'') \<Rightarrow> (Inl e, cb'')
              | (Inr out, cb'') \<Rightarrow> (Inr (x @ out), cb'')))"
      by (rule tallies_seq2 [OF tallies_replace_slot]) (rule rec)
    with Some m show ?thesis by simp
  qed
qed

lemma tallies_render:
  "tallies cb (placeholders t) (render_template t cb)"
  "tallies cb (placeholders_list xs) (render_list xs cb)"
  "tallies cb (placeholders_items kvs) (render_items kvs cb)"
proof (induction t cb and xs cb and kvs cb rule: render_template_render_list_render_items.induct)
  case (1 t cb)
  show ?case
  proof (cases "fullmatch (strip t)")
    case None
    from tallies_map2 [OF tallies_sub_slots, of cb t VStr] None show ?thesis by simp
  next
    case (Some n)
    with tallies_get [of cb n] show ?thesis by simp
  qed
next
  case (2 kvs cb)
  from tallies_map2 [OF 2, of VDict] show ?case by simp
next
  case (3 xs cb)
  from tallies_map2 [OF 3, of VList] show ?case by simp
next
  case (4 cb)
  show ?case by (simp add: tallies_Nil)
next
  case (5 b cb)
  show ?case by (simp add: tallies_Nil)
next
  case (6 i cb)
  show ?case by (simp add: tallies_Nil)
next
  case (7 cb)
  show ?case by (simp add: tallies_Nil)
next
  case (8 x xs cb)
  have rec: "tallies (snd (render_template x cb)) (placeholders_list xs)
      (case render_list xs (snd (render_template x cb)) of
         (Inl e, cb'') \<Rightarrow> (Inl e, cb'')
       | (Inr ys, cb'') \<Rightarrow> (Inr (y # ys), cb''))"
    if "fst (render_template x cb) = Inr y" for y
  proof -
    have "tallies (snd (render_template x cb)) (placeholders_list xs)
        (render_list xs (snd (render_template x cb)))"
      using "8.IH"(2) [of "fst (render_template x cb)" "snd (render_template x cb)" y] that
      by (simp add: prod_eq_iff)
    then show ?thesis by (rule tallies_map2)
  qed
  have "tallies cb (placeholders x @ placeholders_list xs)
      (case render_template x cb of
         (Inl e, cb') \<Rightarrow> (Inl e, cb')
       | (Inr y, cb') \<Rightarrow>
           (case render_list xs cb' of
              (Inl e, cb'') \<Rightarrow> (Inl e, cb'')
            | (Inr ys, cb'') \<Rightarrow> (Inr (y # ys), cb'')))"
    by (rule tallies_seq2 [OF "8.IH"(1)]) (rule rec)
  then show ?case by simp
next
  case (9 cb)
  show ?case by (simp add: tallies_Nil)
next
  case (10 k v kvs cb)
  have rec: "tallies (snd (render_template v cb)) (placeholders_items kvs)
      (case render_items kvs (snd (render_template v cb)) of
         (Inl e, cb'') \<Rightarrow> (Inl e, cb'')
       | (Inr ys, cb'') \<Rightarrow> (Inr ((k, y) # ys), cb''))"
    if "fst (render_template v cb) = Inr y" for y
  proof -
    have "tallies (snd (render_template v cb)) (placeholders_items kvs)
        (render_items kvs (snd (render_template v cb)))"
      using "10.IH"(2) [of "fst (render_template v cb)" "snd (render_template v cb)" y] that
      by (simp add: prod_eq_iff)
    then show ?thesis by (rule tallies_map2)
  qed
  have "tallies cb (placeholders v @ placeholders_items kvs)
      (case render_template v cb of
         (Inl e, cb') \<Rightarrow> (Inl e, cb')
       | (Inr y, cb') \<Rightarrow>
           (case render_items kvs cb' of
              (Inl e, cb'') \<Rightarrow> (Inl e, cb'')
            | (Inr ys, cb'') \<Rightarrow> (Inr ((k, y) # ys), cb'')))"
    by (rule tallies_seq2 [OF "10.IH"(1)]) (rule rec)
  then show ?case by simp
qed

text \<open>
  C10. When \<^verbatim>\<open>render_template\<close> fails, some placeholder of the template names no
  slot, and the clipboard left behind has the slots and stored sizes it had before,
  with one usage recorded for each placeholder resolved before the first unknown one:
  the use count of every slot has grown by the number of its placeholders resolved
  before the failure, and stays so.
\<close>

theorem failed_render_keeps_usage:
  "render_template t cb = (Inl e, cb') \<Longrightarrow> accounted cb
     \<Longrightarrow> \<not> all_known cb (placeholders t)
       \<and> cb_slots cb' = cb_slots cb
       \<and> cb_bytes_stored cb' = cb_bytes_stored cb
       \<and> cb' = fold record_usage (resolved cb (placeholders t)) cb
       \<and> (\<forall>m. use_count cb' m = use_count cb m + count_list (resolved cb (placeholders t)) m)"
proof -
  assume r: "render_template t cb = (Inl e, cb')" and a: "accounted cb"
  from tallies_render(1) [of cb t] r
  have cb': "cb' = fold record_usage (resolved cb (placeholders t)) cb"
    and nk: "\<not> all_known cb (placeholders t)"
    by (simp_all add: tallies_def)
  have "use_count cb' m = use_count cb m + count_list (resolved cb (placeholders t)) m" for m
    unfolding cb' using a resolved_known by (rule use_count_fold)
  with cb' nk show ?thesis by simp
qed

theorem failed_render_keeps_usage_witness:
  "fst (render_template mixed_template two_slots)
     = Inl (KeyError (''Clipboard slot '' @ quoted ''zz'' @ '' not found. Available: ''
         @ ''['' @ quoted ''a'' @ '', '' @ quoted ''b'' @ '']''))
   \<and> cb_slots (snd (render_template mixed_template two_slots)) = cb_slots two_slots
   \<and> use_count (snd (render_template mixed_template two_slots)) ''a'' = 2
   \<and> use_count (snd (render_template mixed_template two_slots)) ''b'' = 1"
proof -
  let ?e = "KeyError (''Clipboard slot '' @ quoted ''zz'' @ '' not found. Available: ''
         @ ''['' @ quoted ''a'' @ '', '' @ quoted ''b'' @ '']'')"
  have f: "fst (render_template mixed_template two_slots) = Inl ?e" by code_simp
  then have r: "render_template mixed_template two_slots
      = (Inl ?e, snd (render_template mixed_template two_slots))"
    by (simp add: prod_eq_iff)
  have a: "accounted two_slots" by code_simp
  have res: "resolved two_slots (placeholders mixed_template) = [''a'', ''b'', ''a'']"
    by code_simp
  have c: "use_count two_slots ''a'' = 0" "use_count two_slots ''b'' = 0" by code_simp+
  note th = failed_render_keeps_usage [OF r a, unfolded res]
  note slots = th [THEN conjunct2, THEN conjunct1]
  note cnt = th [THEN conjunct2, THEN conjunct2, THEN conjunct2, THEN conjunct2, rule_format]
  have ca: "use_count (snd (render_template mixed_template two_slots)) ''a'' = 2"
    using cnt [of "''a''"] c by simp
  have cb: "use_count (snd (render_template mixed_template two_slots)) ''b'' = 1"
    using cnt [of "''b''"] c by simp
  from f slots ca cb show ?thesis by (intro conjI)
qed

end
